theory Spec2Isabelle
  imports Complex_Main "HOL-Library.Word"
begin

unbundle bit_operations_syntax

section \<open>Conventions of the embedding\<close>

text \<open>
  The program is TypeScript. Its \<^verbatim>\<open>number\<close> values are IEEE 754 doubles.

  The geodesy functions that the route sampler calls and the sampler itself are embedded
  over doubles. A number is a \<open>jsNumber\<close>: \<^verbatim>\<open>NaN\<close>, one of the infinities, or a finite
  value. Every arithmetic operation rounds its exact result to the nearest double, ties
  to even, and overflows to an infinity (\<open>toNumber\<close>). The functions \<^verbatim>\<open>Math.sin\<close>,
  \<^verbatim>\<open>Math.cos\<close>, \<^verbatim>\<open>Math.asin\<close>, \<^verbatim>\<open>Math.sqrt\<close> and \<^verbatim>\<open>Math.atan2\<close>, whose results the
  language leaves to the implementation, are a parameter of these definitions
  (\<open>mathLib\<close>): a statement holds for every library unless it names one. The two zeros
  of IEEE are one value here: the sign of a zero is not modelled.

  The image selector, the merge of the orchestrator and the reading of the inputs are
  embedded over exact reals (\<^typ>\<open>real\<close>), or over \<^typ>\<open>int\<close> where the code only ever
  holds integers; the polyline decoder applies the bitwise operators, which work on
  32-bit integers, and is embedded over \<^typ>\<open>32 word\<close>. There a \<^verbatim>\<open>NaN\<close> or an
  \<^verbatim>\<open>Infinity\<close> appears only where it is the documented result of a library call the
  code relies on (\<^verbatim>\<open>charCodeAt\<close> past the end of a string, the initial \<^verbatim>\<open>bestScore\<close>,
  \<^verbatim>\<open>parseFloat\<close>).
  A string is a \<^typ>\<open>string\<close>: a list of code units below 256.
\<close>

section \<open>The program\<close>

subsection \<open>Polyline decoder (\<^verbatim>\<open>src/utils/polyline.ts\<close>)\<close>

text \<open>
  One variable-length group, the loop
  \<^verbatim>\<open>do { byte = str.charCodeAt(index++) - 63; result |= (byte & 0x1f) << shift; shift += 5; } while (byte >= 0x20)\<close>.
  Past the end of the string \<^verbatim>\<open>charCodeAt\<close> returns \<^verbatim>\<open>NaN\<close>: then \<^verbatim>\<open>byte\<close> is \<^verbatim>\<open>NaN\<close>,
  \<^verbatim>\<open>byte & 0x1f\<close> is 0, \<^verbatim>\<open>result\<close> keeps its value, \<^verbatim>\<open>NaN >= 0x20\<close> is false and the loop
  ends; nothing is thrown. The shift count of \<^verbatim>\<open><<\<close> is taken modulo 32.
  The function returns the final \<^verbatim>\<open>result\<close> and \<^verbatim>\<open>index\<close>.
\<close>

function readChunk :: "string \<Rightarrow> nat \<Rightarrow> nat \<Rightarrow> 32 word \<Rightarrow> 32 word \<times> nat" where
  "readChunk str index shift result =
     (if index < length str then
        (let byte = int (of_char (str ! index) :: nat) - 63;
             result' = result OR push_bit (shift mod 32) (word_of_int (byte AND 0x1f))
         in if 0x20 \<le> byte then readChunk str (index + 1) (shift + 5) result'
            else (result', index + 1))
      else (result, index + 1))"
  by pat_completeness auto
termination
  by (relation "measure (\<lambda>(str, index, shift, result). length str - index)") auto

declare readChunk.simps [simp del]

text \<open>\<^verbatim>\<open>result & 1 ? ~(result >> 1) : result >> 1\<close>, with the sign-propagating \<^verbatim>\<open>>>\<close>.\<close>

definition coordinateChange :: "32 word \<Rightarrow> int" where
  "coordinateChange result =
     sint (if result AND 1 \<noteq> 0 then NOT (signed_drop_bit 1 result)
           else signed_drop_bit 1 result)"

lemma readChunk_index: "index < snd (readChunk str index shift result)"
proof (induction str index shift result rule: readChunk.induct)
  case (1 str index shift result)
  show ?case
  proof (cases "index < length str \<and> 0x20 \<le> int (of_char (str ! index) :: nat) - 63")
    case True
    then have "index + 1 < snd (readChunk str (index + 1) (shift + 5)
        (result OR push_bit (shift mod 32)
           (word_of_int ((int (of_char (str ! index) :: nat) - 63) AND 0x1f))))"
      using 1 by simp
    then show ?thesis
      using True by (subst readChunk.simps) (simp add: Let_def)
  next
    case False
    then show ?thesis
      by (subst readChunk.simps) (auto simp: Let_def)
  qed
qed

lemma readChunk_index_eq: "readChunk str index shift result = (r, i) \<Longrightarrow> index < i"
  using readChunk_index[of index str shift result] by simp

text \<open>
  The outer loop \<^verbatim>\<open>while (index < str.length)\<close>: two groups per point, latitude first,
  the running sums \<^verbatim>\<open>lat\<close> and \<^verbatim>\<open>lng\<close>, and \<^verbatim>\<open>coordinates.push([lat / factor, lng / factor])\<close>.
\<close>

function decodeLoop ::
  "string \<Rightarrow> real \<Rightarrow> nat \<Rightarrow> int \<Rightarrow> int \<Rightarrow> (real \<times> real) list \<Rightarrow> (real \<times> real) list" where
  "decodeLoop str factor index lat lng coordinates =
     (if index < length str then
        (let (result1, index1) = readChunk str index 0 0;
             latitudeChange = coordinateChange result1;
             (result2, index2) = readChunk str index1 0 0;
             longitudeChange = coordinateChange result2;
             lat' = lat + latitudeChange;
             lng' = lng + longitudeChange
         in decodeLoop str factor index2 lat' lng'
              (coordinates @ [(real_of_int lat' / factor, real_of_int lng' / factor)]))
      else coordinates)"
  by pat_completeness auto
termination
  by (relation "measure (\<lambda>(str, factor, index, lat, lng, coordinates). length str - index)")
     (auto dest!: sym[THEN readChunk_index_eq])

declare decodeLoop.simps [simp del]

text \<open>
  \<^verbatim>\<open>decode(str, precision = 5)\<close>; \<^verbatim>\<open>factor = Math.pow(10, precision)\<close>. The precision is a
  natural number here (the only caller uses the default).
\<close>

definition decode :: "string \<Rightarrow> nat \<Rightarrow> (real \<times> real) list" where
  "decode str precision = decodeLoop str (10 ^ precision) 0 0 0 []"

text \<open>
  A string ends in the middle of a group when its last character still has the
  continuation bit set, that is \<^verbatim>\<open>charCode - 63 >= 0x20\<close>.
\<close>

definition endsMidGroup :: "string \<Rightarrow> bool" where
  "endsMidGroup str = (str \<noteq> [] \<and> 0x20 \<le> int (of_char (last str) :: nat) - 63)"

subsection \<open>Numbers\<close>

text \<open>A value of the type \<^verbatim>\<open>number\<close>.\<close>

datatype jsNumber = NaN | PosInfinity | NegInfinity | Num real

text \<open>
  Rounding to the nearest double, ties to even. A real \<open>x\<close> lies in the binade
  \<open>[2\<^sup>e, 2\<^sup>e\<^sup>+\<^sup>1)\<close> with \<open>e = binade x\<close>, never below the least normal exponent \<open>-1022\<close>; the
  doubles of that binade are the multiples of \<open>quantum x = 2\<^sup>e\<^sup>-\<^sup>5\<^sup>2\<close>, and \<open>fl x\<close> is the
  nearest of them, the one with the even multiplier when two are equally near. Below
  \<open>2\<^sup>-\<^sup>1\<^sup>0\<^sup>2\<^sup>2\<close> these are the subnormal numbers, the multiples of \<open>2\<^sup>-\<^sup>1\<^sup>0\<^sup>7\<^sup>4\<close>.
\<close>

definition roundTiesToEven :: "real \<Rightarrow> int" where
  "roundTiesToEven y =
     (let f = \<lfloor>y\<rfloor>; r = y - of_int f
      in if r < 1 / 2 then f else if 1 / 2 < r then f + 1 else if even f then f else f + 1)"

definition binade :: "real \<Rightarrow> int" where
  "binade x = (if x = 0 then - 1022 else max \<lfloor>log 2 \<bar>x\<bar>\<rfloor> (- 1022))"

definition quantum :: "real \<Rightarrow> real" where
  "quantum x = 2 powr (of_int (binade x) - 52)"

definition fl :: "real \<Rightarrow> real" where
  "fl x = of_int (roundTiesToEven (x / quantum x)) * quantum x"

text \<open>
  The largest double, and the number that an operation with the exact result \<open>x\<close>
  returns: a result that rounds beyond the largest double is an infinity.
\<close>

definition maxDouble :: real where
  "maxDouble = (2 ^ 53 - 1) * 2 ^ 971"

definition toNumber :: "real \<Rightarrow> jsNumber" where
  "toNumber x =
     (if maxDouble < fl x then PosInfinity
      else if fl x < - maxDouble then NegInfinity
      else Num (fl x))"

text \<open>The finite doubles: 53 bits of significand, exponents from \<open>-1074\<close> to 971.\<close>

definition doubles :: "real set" where
  "doubles = {of_int m * 2 powr of_int e | m e. \<bar>m\<bar> < 2 ^ 53 \<and> - 1074 \<le> e \<and> e \<le> 971}"

text \<open>
  The operators \<^verbatim>\<open>-x\<close>, \<^verbatim>\<open>+\<close>, \<^verbatim>\<open>-\<close>, \<^verbatim>\<open>*\<close>, \<^verbatim>\<open>/\<close>, \<^verbatim>\<open><\<close>, \<^verbatim>\<open><=\<close> and \<^verbatim>\<open>%\<close> on numbers. None of
  them raises: a division by zero is \<^verbatim>\<open>NaN\<close> or an infinity, and a comparison with
  \<^verbatim>\<open>NaN\<close> is false. The remainder has the sign of the dividend and is exact.
\<close>

fun jsNeg :: "jsNumber \<Rightarrow> jsNumber" where
  "jsNeg (Num a) = Num (- a)"
| "jsNeg NaN = NaN"
| "jsNeg PosInfinity = NegInfinity"
| "jsNeg NegInfinity = PosInfinity"

fun jsAdd :: "jsNumber \<Rightarrow> jsNumber \<Rightarrow> jsNumber" where
  "jsAdd (Num a) (Num b) = toNumber (a + b)"
| "jsAdd NaN y = NaN"
| "jsAdd x NaN = NaN"
| "jsAdd PosInfinity NegInfinity = NaN"
| "jsAdd NegInfinity PosInfinity = NaN"
| "jsAdd PosInfinity y = PosInfinity"
| "jsAdd NegInfinity y = NegInfinity"
| "jsAdd x PosInfinity = PosInfinity"
| "jsAdd x NegInfinity = NegInfinity"

definition jsSub :: "jsNumber \<Rightarrow> jsNumber \<Rightarrow> jsNumber" where
  "jsSub x y = jsAdd x (jsNeg y)"

definition signedInfinity :: "bool \<Rightarrow> jsNumber" where
  "signedInfinity positive = (if positive then PosInfinity else NegInfinity)"

fun jsMul :: "jsNumber \<Rightarrow> jsNumber \<Rightarrow> jsNumber" where
  "jsMul (Num a) (Num b) = toNumber (a * b)"
| "jsMul NaN y = NaN"
| "jsMul x NaN = NaN"
| "jsMul PosInfinity (Num b) = (if b = 0 then NaN else signedInfinity (0 < b))"
| "jsMul NegInfinity (Num b) = (if b = 0 then NaN else signedInfinity (b < 0))"
| "jsMul (Num a) PosInfinity = (if a = 0 then NaN else signedInfinity (0 < a))"
| "jsMul (Num a) NegInfinity = (if a = 0 then NaN else signedInfinity (a < 0))"
| "jsMul PosInfinity PosInfinity = PosInfinity"
| "jsMul PosInfinity NegInfinity = NegInfinity"
| "jsMul NegInfinity PosInfinity = NegInfinity"
| "jsMul NegInfinity NegInfinity = PosInfinity"

fun jsDiv :: "jsNumber \<Rightarrow> jsNumber \<Rightarrow> jsNumber" where
  "jsDiv (Num a) (Num b) =
     (if b = 0 then (if a = 0 then NaN else signedInfinity (0 < a)) else toNumber (a / b))"
| "jsDiv NaN y = NaN"
| "jsDiv x NaN = NaN"
| "jsDiv (Num a) PosInfinity = Num 0"
| "jsDiv (Num a) NegInfinity = Num 0"
| "jsDiv PosInfinity (Num b) = signedInfinity (0 \<le> b)"
| "jsDiv NegInfinity (Num b) = signedInfinity (b < 0)"
| "jsDiv PosInfinity y = NaN"
| "jsDiv NegInfinity y = NaN"

fun jsLess :: "jsNumber \<Rightarrow> jsNumber \<Rightarrow> bool" where
  "jsLess (Num a) (Num b) = (a < b)"
| "jsLess NaN y = False"
| "jsLess x NaN = False"
| "jsLess x NegInfinity = False"
| "jsLess PosInfinity y = False"
| "jsLess NegInfinity y = True"
| "jsLess x PosInfinity = True"

fun jsLessEq :: "jsNumber \<Rightarrow> jsNumber \<Rightarrow> bool" where
  "jsLessEq (Num a) (Num b) = (a \<le> b)"
| "jsLessEq NaN y = False"
| "jsLessEq x NaN = False"
| "jsLessEq NegInfinity y = True"
| "jsLessEq x PosInfinity = True"
| "jsLessEq x NegInfinity = False"
| "jsLessEq PosInfinity y = False"

definition truncate :: "real \<Rightarrow> int" where
  "truncate q = (if 0 \<le> q then \<lfloor>q\<rfloor> else \<lceil>q\<rceil>)"

fun jsRemainder :: "jsNumber \<Rightarrow> jsNumber \<Rightarrow> jsNumber" where
  "jsRemainder (Num n) (Num d) = (if d = 0 then NaN else Num (n - d * of_int (truncate (n / d))))"
| "jsRemainder (Num n) PosInfinity = Num n"
| "jsRemainder (Num n) NegInfinity = Num n"
| "jsRemainder x y = NaN"

text \<open>
  The functions of \<^verbatim>\<open>Math\<close> that the geodesy calls, and the constant \<^verbatim>\<open>Math.PI\<close>, the
  double nearest to \<open>\<pi>\<close>: \<open>884279719003555 / 2\<^sup>4\<^sup>8\<close>.
\<close>

record mathLib =
  libSin :: "jsNumber \<Rightarrow> jsNumber"
  libCos :: "jsNumber \<Rightarrow> jsNumber"
  libAsin :: "jsNumber \<Rightarrow> jsNumber"
  libSqrt :: "jsNumber \<Rightarrow> jsNumber"
  libAtan2 :: "jsNumber \<Rightarrow> jsNumber \<Rightarrow> jsNumber"

definition Math_PI :: real where
  "Math_PI = 884279719003555 / 281474976710656"

subsection \<open>Geodesy (\<^verbatim>\<open>utils/calculations\<close>)\<close>

text \<open>
  A point is the pair \<^verbatim>\<open>[lat, lon]\<close> in degrees. The angle conversions multiply by the
  rounded quotients \<^verbatim>\<open>Math.PI / 180\<close> and \<^verbatim>\<open>180 / Math.PI\<close>, as the source writes them.
\<close>

type_synonym point = "jsNumber \<times> jsNumber"

definition toRadiansN :: "jsNumber \<Rightarrow> jsNumber" where
  "toRadiansN degrees = jsMul degrees (jsDiv (Num Math_PI) (Num 180))"

definition toDegreesN :: "jsNumber \<Rightarrow> jsNumber" where
  "toDegreesN radians = jsMul radians (jsDiv (Num 180) (Num Math_PI))"

text \<open>
  The three functions, operation by operation in the order of the source: a product
  \<^verbatim>\<open>a * b * c\<close> is \<^verbatim>\<open>(a * b) * c\<close>, and every intermediate result is rounded.
\<close>

definition calculateInitialCompassBearing :: "mathLib \<Rightarrow> point \<Rightarrow> point \<Rightarrow> jsNumber" where
  "calculateInitialCompassBearing M pointA pointB =
     (let lat1 = toRadiansN (fst pointA);
          lat2 = toRadiansN (fst pointB);
          diffLong = toRadiansN (jsSub (snd pointB) (snd pointA));
          x = jsMul (libSin M diffLong) (libCos M lat2);
          y = jsSub (jsMul (libCos M lat1) (libSin M lat2))
                    (jsMul (jsMul (libSin M lat1) (libCos M lat2)) (libCos M diffLong));
          initialBearing = libAtan2 M x y;
          compassBearing = jsRemainder (jsAdd (toDegreesN initialBearing) (Num 360)) (Num 360)
      in compassBearing)"

text \<open>The haversine distance in km; named \<^verbatim>\<open>distance\<close> in the source.\<close>

definition distanceN :: "mathLib \<Rightarrow> point \<Rightarrow> point \<Rightarrow> jsNumber" where
  "distanceN M origin destination =
     (let lat1 = fst origin; lon1 = snd origin;
          lat2 = fst destination; lon2 = snd destination;
          radius = Num 6371;
          dlat = toRadiansN (jsSub lat2 lat1);
          dlon = toRadiansN (jsSub lon2 lon1);
          a = jsAdd (jsMul (libSin M (jsDiv dlat (Num 2))) (libSin M (jsDiv dlat (Num 2))))
                (jsMul (jsMul (jsMul (libCos M (toRadiansN lat1)) (libCos M (toRadiansN lat2)))
                          (libSin M (jsDiv dlon (Num 2))))
                   (libSin M (jsDiv dlon (Num 2))));
          c = jsMul (Num 2) (libAtan2 M (libSqrt M a) (libSqrt M (jsSub (Num 1) a)));
          d = jsMul radius c
      in d)"

definition calculateDestinationPoint :: "mathLib \<Rightarrow> point \<Rightarrow> jsNumber \<Rightarrow> jsNumber \<Rightarrow> point" where
  "calculateDestinationPoint M point' bearing' distanceKm =
     (let radius = Num 6371;
          lat1 = toRadiansN (fst point');
          lon1 = toRadiansN (snd point');
          bearingRad = toRadiansN bearing';
          lat2 = libAsin M
                   (jsAdd (jsMul (libSin M lat1) (libCos M (jsDiv distanceKm radius)))
                      (jsMul (jsMul (libCos M lat1) (libSin M (jsDiv distanceKm radius)))
                         (libCos M bearingRad)));
          lon2 = jsAdd lon1
                   (libAtan2 M
                      (jsMul (jsMul (libSin M bearingRad) (libSin M (jsDiv distanceKm radius)))
                         (libCos M lat1))
                      (jsSub (libCos M (jsDiv distanceKm radius))
                         (jsMul (libSin M lat1) (libSin M lat2))))
      in (toDegreesN lat2, toDegreesN lon2))"

text \<open>
  The same haversine formula in exact arithmetic, for the statements about the merge of
  the orchestrator, which compares distances of image locations with a threshold: there a
  coordinate is a pair of reals and \<open>distance\<close> is the value of the formula.
  \<open>atan2 y x\<close> is the angle of the point \<open>(x, y)\<close>, in \<open>(-\<pi>, \<pi>]\<close>, and 0 at the origin.
\<close>

type_synonym coordinate = "real \<times> real"

definition toRadians :: "real \<Rightarrow> real" where
  "toRadians degrees = degrees * (pi / 180)"

definition toDegrees :: "real \<Rightarrow> real" where
  "toDegrees radians = radians * (180 / pi)"

definition atan2 :: "real \<Rightarrow> real \<Rightarrow> real" where
  "atan2 y x =
     (if 0 < x then arctan (y / x)
      else if x < 0 then (if 0 \<le> y then arctan (y / x) + pi else arctan (y / x) - pi)
      else if 0 < y then pi / 2
      else if y < 0 then - (pi / 2)
      else 0)"

definition distance :: "coordinate \<Rightarrow> coordinate \<Rightarrow> real" where
  "distance origin destination =
     (let lat1 = fst origin; lon1 = snd origin;
          lat2 = fst destination; lon2 = snd destination;
          radius = 6371;
          dlat = toRadians (lat2 - lat1);
          dlon = toRadians (lon2 - lon1);
          a = sin (dlat / 2) * sin (dlat / 2) +
              cos (toRadians lat1) * cos (toRadians lat2) * sin (dlon / 2) * sin (dlon / 2);
          c = 2 * atan2 (sqrt a) (sqrt (1 - a));
          d = radius * c
      in d)"

text \<open>
  A library that returns the double nearest to the exact value of each function, for
  the examples. (An implementation need not be this accurate.)
\<close>

definition roundedUnary :: "(real \<Rightarrow> real) \<Rightarrow> jsNumber \<Rightarrow> jsNumber" where
  "roundedUnary f x = (case x of Num a \<Rightarrow> toNumber (f a) | _ \<Rightarrow> NaN)"

definition correctlyRounded :: mathLib where
  "correctlyRounded =
     \<lparr>libSin = roundedUnary sin,
      libCos = roundedUnary cos,
      libAsin = (\<lambda>x. case x of Num a \<Rightarrow> if \<bar>a\<bar> \<le> 1 then toNumber (arcsin a) else NaN | _ \<Rightarrow> NaN),
      libSqrt = (\<lambda>x. case x of Num a \<Rightarrow> if a < 0 then NaN else toNumber (sqrt a)
                             | PosInfinity \<Rightarrow> PosInfinity | _ \<Rightarrow> NaN),
      libAtan2 = (\<lambda>y x. case (y, x) of
                    (Num b, Num a) \<Rightarrow> toNumber (atan2 b a)
                  | (Num b, PosInfinity) \<Rightarrow> Num 0
                  | (Num b, NegInfinity) \<Rightarrow> toNumber (if 0 \<le> b then pi else - pi)
                  | (PosInfinity, Num a) \<Rightarrow> toNumber (pi / 2)
                  | (NegInfinity, Num a) \<Rightarrow> toNumber (- (pi / 2))
                  | (PosInfinity, PosInfinity) \<Rightarrow> toNumber (pi / 4)
                  | (PosInfinity, NegInfinity) \<Rightarrow> toNumber (3 * pi / 4)
                  | (NegInfinity, PosInfinity) \<Rightarrow> toNumber (- (pi / 4))
                  | (NegInfinity, NegInfinity) \<Rightarrow> toNumber (- (3 * pi / 4))
                  | _ \<Rightarrow> NaN)\<rparr>"

text \<open>
  The partial sums of the series of the arc tangent, which bound \<open>\<pi>\<close> through Machin's
  formula.
\<close>

definition arctanSum :: "real \<Rightarrow> nat \<Rightarrow> real" where
  "arctanSum x n = (\<Sum>i<n. (- 1) ^ i * (1 / real (i * 2 + 1) * x ^ (i * 2 + 1)))"

subsection \<open>Route sampler (\<^verbatim>\<open>generateEvenlySpacedPoints\<close>)\<close>

record waypoint =
  coord :: point
  bearing :: jsNumber

text \<open>The local variables of the loop.\<close>

record sampler =
  result :: "waypoint list"
  nextPointDistance :: jsNumber
  accumulatedDistance :: jsNumber
  currentSegmentIndex :: nat
  distanceIntoSegment :: jsNumber

text \<open>The loop condition.\<close>

definition samplerContinues :: "point list \<Rightarrow> jsNumber \<Rightarrow> sampler \<Rightarrow> bool" where
  "samplerContinues routeCoords totalDistance st =
     (jsLess (nextPointDistance st) totalDistance \<and>
      currentSegmentIndex st < length routeCoords - 1)"

text \<open>
  One pass through the loop body. The source also computes
  \<^verbatim>\<open>fraction = distanceAlongSegment / segmentLength\<close> and never reads it; a division of
  numbers raises nothing, whatever the divisor. Inside the loop the index is below the
  number of segments, so both list accesses are in range.
\<close>

definition samplerStep ::
  "mathLib \<Rightarrow> point list \<Rightarrow> jsNumber list \<Rightarrow> jsNumber \<Rightarrow> sampler \<Rightarrow> sampler" where
  "samplerStep M routeCoords segmentLengths targetSpacingKm st =
     (let segmentLength = segmentLengths ! currentSegmentIndex st;
          remainingInSegment = jsSub segmentLength (distanceIntoSegment st)
      in if jsLessEq (jsSub (nextPointDistance st) (accumulatedDistance st)) remainingInSegment then
           (let distanceAlongSegment =
                  jsAdd (distanceIntoSegment st)
                    (jsSub (nextPointDistance st) (accumulatedDistance st));
                fraction = jsDiv distanceAlongSegment segmentLength;
                segmentStart = routeCoords ! currentSegmentIndex st;
                segmentEnd = routeCoords ! (currentSegmentIndex st + 1);
                bearing' = calculateInitialCompassBearing M segmentStart segmentEnd;
                interpolatedCoord =
                  calculateDestinationPoint M segmentStart bearing' distanceAlongSegment
            in st\<lparr>result := result st @ [\<lparr>coord = interpolatedCoord, bearing = bearing'\<rparr>],
                  nextPointDistance := jsAdd (nextPointDistance st) targetSpacingKm\<rparr>)
         else st\<lparr>accumulatedDistance := jsAdd (accumulatedDistance st) remainingInSegment,
                 distanceIntoSegment := Num 0,
                 currentSegmentIndex := currentSegmentIndex st + 1\<rparr>)"

text \<open>
  The \<^verbatim>\<open>while\<close> loop. It need not end for every input (a spacing of 0 repeats the
  first branch forever), so it is a partial function: \<open>None\<close> is "does not return".
\<close>

partial_function (option) samplerLoop ::
  "mathLib \<Rightarrow> point list \<Rightarrow> jsNumber list \<Rightarrow> jsNumber \<Rightarrow> jsNumber \<Rightarrow> sampler \<Rightarrow>
   waypoint list option" where
  "samplerLoop M routeCoords segmentLengths targetSpacingKm totalDistance st =
     (if samplerContinues routeCoords totalDistance st
      then samplerLoop M routeCoords segmentLengths targetSpacingKm totalDistance
             (samplerStep M routeCoords segmentLengths targetSpacingKm st)
      else Some (result st))"

text \<open>
  The segment lengths, in route order, and their sum, added up from 0 in that order
  (the \<^verbatim>\<open>for\<close> loop that fills \<^verbatim>\<open>segmentLengths\<close> and \<^verbatim>\<open>totalDistance\<close>).
\<close>

definition segmentLengthsOf :: "mathLib \<Rightarrow> point list \<Rightarrow> jsNumber list" where
  "segmentLengthsOf M routeCoords =
     map (\<lambda>i. distanceN M (routeCoords ! i) (routeCoords ! (i + 1))) [0 ..< length routeCoords - 1]"

definition totalDistanceOf :: "jsNumber list \<Rightarrow> jsNumber" where
  "totalDistanceOf segmentLengths = foldl jsAdd (Num 0) segmentLengths"

text \<open>
  The variables as the loop finds them: the first route point is already in \<^verbatim>\<open>result\<close>,
  with the bearing of the first segment, and the first target is one spacing along.
\<close>

definition samplerInit :: "mathLib \<Rightarrow> point list \<Rightarrow> jsNumber \<Rightarrow> sampler" where
  "samplerInit M routeCoords targetSpacingKm =
     (let firstBearing = calculateInitialCompassBearing M (routeCoords ! 0) (routeCoords ! 1)
      in \<lparr>result = [\<lparr>coord = routeCoords ! 0, bearing = firstBearing\<rparr>],
          nextPointDistance = targetSpacingKm,
          accumulatedDistance = Num 0,
          currentSegmentIndex = 0,
          distanceIntoSegment = Num 0\<rparr>)"

definition generateEvenlySpacedPoints ::
  "mathLib \<Rightarrow> point list \<Rightarrow> jsNumber \<Rightarrow> waypoint list option" where
  "generateEvenlySpacedPoints M routeCoords targetSpacingMeters =
     (if length routeCoords < 2 then Some []
      else
        (let targetSpacingKm = jsDiv targetSpacingMeters (Num 1000);
             segmentLengths = segmentLengthsOf M routeCoords;
             totalDistance = totalDistanceOf segmentLengths
         in samplerLoop M routeCoords segmentLengths targetSpacingKm totalDistance
              (samplerInit M routeCoords targetSpacingKm)))"



definition accumulatedAt :: "jsNumber list \<Rightarrow> nat \<Rightarrow> jsNumber" where
  "accumulatedAt sl j = totalDistanceOf (take j sl)"



definition positiveNumber :: "jsNumber \<Rightarrow> bool" where
  "positiveNumber v = (case v of Num x \<Rightarrow> x \<in> doubles \<and> 0 < x | PosInfinity \<Rightarrow> True | _ \<Rightarrow> False)"

definition representable :: "jsNumber \<Rightarrow> bool" where
  "representable v = (case v of Num x \<Rightarrow> x \<in> doubles | _ \<Rightarrow> True)"


text \<open>A finite number between two bounds.\<close>

definition between :: "real \<Rightarrow> real \<Rightarrow> jsNumber \<Rightarrow> bool" where
  "between lo hi v = (\<exists>y. v = Num y \<and> y \<in> doubles \<and> lo \<le> y \<and> y \<le> hi)"

subsection \<open>Image selector (\<^verbatim>\<open>getMapillaryImage\<close>)\<close>

text \<open>
  A record of the provider's answer, with the fields the selector reads. A field that
  may be absent is an option. The field \<^verbatim>\<open>id\<close> is named \<open>image_id\<close> here, and
  \<open>geometry_coordinates\<close> stands for \<^verbatim>\<open>geometry.coordinates\<close>, the pair \<^verbatim>\<open>[lon, lat]\<close>: a missing
  \<^verbatim>\<open>geometry\<close> and a \<^verbatim>\<open>geometry\<close> without \<^verbatim>\<open>coordinates\<close> take the same path in every function
  of the program, and both are \<open>None\<close>.
\<close>

record candidateImage =
  image_id :: string
  is_pano :: bool
  thumb_2048_url :: "string option"
  computed_compass_angle :: "real option"
  geometry_coordinates :: "(real \<times> real) option"

text \<open>The value the selector returns (\<^verbatim>\<open>MapillaryImage\<close>).\<close>

record mapillaryImage =
  imageId :: string
  thumbUrl :: "string option"
  computedCompassAngle :: "real option"
  geometry :: "(real \<times> real) option"

text \<open>
  What the body of the loop does with one image: one of the four \<^verbatim>\<open>continue\<close>
  statements, or a score.
\<close>

datatype verdict =
  SkippedPanoOrNoThumb | SkippedTooFar | SkippedNoCompassAngle | SkippedHeading | Scored real

text \<open>
  The second half of the loop body, from \<^verbatim>\<open>if (!image.computed_compass_angle) continue\<close>
  on. The negation is true of a missing angle and also of the number 0.
\<close>

definition scoreHeading :: "real \<Rightarrow> candidateImage \<Rightarrow> real \<Rightarrow> verdict" where
  "scoreHeading heading img distance' =
     (case computed_compass_angle img of
        None \<Rightarrow> SkippedNoCompassAngle
      | Some angle \<Rightarrow>
          if angle = 0 then SkippedNoCompassAngle
          else
            (let angleDiff = \<bar>angle - heading\<bar>;
                 angleDiff = (if angleDiff > 180 then 360 - angleDiff else angleDiff)
             in if angleDiff > 45 then SkippedHeading
                else Scored (angleDiff * 3 + distance' * 10000)))"

text \<open>
  The loop body. \<^verbatim>\<open>!image.thumb_2048_url\<close> is true of a missing URL and of the empty
  string. The distance starts at \<^verbatim>\<open>0.0001\<close> and is recomputed, and checked against
  \<^verbatim>\<open>0.0002\<close>, only when the image has coordinates.
\<close>

definition examineImage :: "real \<Rightarrow> real \<Rightarrow> real \<Rightarrow> candidateImage \<Rightarrow> verdict" where
  "examineImage lat lon heading img =
     (if is_pano img \<or> thumb_2048_url img = None \<or> thumb_2048_url img = Some []
      then SkippedPanoOrNoThumb
      else
        (case geometry_coordinates img of
           Some (imgLon, imgLat) \<Rightarrow>
             (let distance' = sqrt ((imgLat - lat)\<^sup>2 + (imgLon - lon)\<^sup>2)
              in if distance' > 0.0002 then SkippedTooFar
                 else scoreHeading heading img distance')
         | None \<Rightarrow> scoreHeading heading img 0.0001))"

text \<open>\<^verbatim>\<open>score < bestScore\<close>, where \<open>None\<close> is the initial \<^verbatim>\<open>Infinity\<close>.\<close>

definition belowBest :: "real \<Rightarrow> real option \<Rightarrow> bool" where
  "belowBest score bestScore = (case bestScore of None \<Rightarrow> True | Some b \<Rightarrow> score < b)"

text \<open>The \<^verbatim>\<open>for\<close> loop over \<^verbatim>\<open>data.data\<close>, on the pair \<^verbatim>\<open>(bestImage, bestScore)\<close>.\<close>

fun selectLoop ::
  "real \<Rightarrow> real \<Rightarrow> real \<Rightarrow> candidateImage list \<Rightarrow>
   candidateImage option \<times> real option \<Rightarrow> candidateImage option \<times> real option" where
  "selectLoop lat lon heading [] best = best"
| "selectLoop lat lon heading (img # imgs) (bestImage, bestScore) =
     (case examineImage lat lon heading img of
        Scored score \<Rightarrow>
          if belowBest score bestScore
          then selectLoop lat lon heading imgs (Some img, Some score)
          else selectLoop lat lon heading imgs (bestImage, bestScore)
      | _ \<Rightarrow> selectLoop lat lon heading imgs (bestImage, bestScore))"

text \<open>
  What the request can come to: \<^verbatim>\<open>fetch\<close> rejects, the response is not \<^verbatim>\<open>ok\<close>,
  \<^verbatim>\<open>response.json()\<close> rejects, or a body arrives, whose \<^verbatim>\<open>data\<close> is missing (\<open>None\<close>) or a
  list of images.
\<close>

datatype fetched =
  NetworkFailure | HttpNotOk | InvalidJson | Body "candidateImage list option"

datatype lookupError = FetchRejected | MapillaryApiError | JsonRejected

definition toMapillaryImage :: "candidateImage \<Rightarrow> mapillaryImage" where
  "toMapillaryImage bestImage =
     \<lparr>imageId = image_id bestImage,
      thumbUrl = thumb_2048_url bestImage,
      computedCompassAngle = computed_compass_angle bestImage,
      geometry = geometry_coordinates bestImage\<rparr>"

text \<open>The body of the \<^verbatim>\<open>try\<close> block: \<open>Inl\<close> is an exception thrown in it.\<close>

definition lookupBody ::
  "coordinate \<Rightarrow> real \<Rightarrow> fetched \<Rightarrow> lookupError + mapillaryImage option" where
  "lookupBody coord' heading response =
     (let lat = fst coord'; lon = snd coord'
      in case response of
           NetworkFailure \<Rightarrow> Inl FetchRejected
         | HttpNotOk \<Rightarrow> Inl MapillaryApiError
         | InvalidJson \<Rightarrow> Inl JsonRejected
         | Body None \<Rightarrow> Inr None
         | Body (Some []) \<Rightarrow> Inr None
         | Body (Some imgs) \<Rightarrow>
             (case fst (selectLoop lat lon heading imgs (None, None)) of
                Some bestImage \<Rightarrow> Inr (Some (toMapillaryImage bestImage))
              | None \<Rightarrow> Inr None))"

text \<open>\<^verbatim>\<open>getMapillaryImage\<close>: the \<^verbatim>\<open>catch\<close> clause logs the error and returns \<^verbatim>\<open>null\<close>.\<close>

definition getMapillaryImage :: "coordinate \<Rightarrow> real \<Rightarrow> fetched \<Rightarrow> mapillaryImage option" where
  "getMapillaryImage coord' heading response =
     (case lookupBody coord' heading response of
        Inl error \<Rightarrow> None
      | Inr found \<Rightarrow> found)"

text \<open>The score of an image that passes every check, for the statements below.\<close>

definition scoreOf :: "real \<Rightarrow> real \<Rightarrow> real \<Rightarrow> candidateImage \<Rightarrow> real option" where
  "scoreOf lat lon heading img =
     (case examineImage lat lon heading img of Scored score \<Rightarrow> Some score | _ \<Rightarrow> None)"

text \<open>
  The two quantities of the score: the heading difference folded into \<open>[0, 180]\<close>, and
  the planar distance in degrees (the default when the image has no coordinates).
\<close>

definition headingDiff :: "real \<Rightarrow> real \<Rightarrow> real" where
  "headingDiff heading angle =
     (if \<bar>angle - heading\<bar> > 180 then 360 - \<bar>angle - heading\<bar> else \<bar>angle - heading\<bar>)"

definition planarDistance :: "real \<Rightarrow> real \<Rightarrow> candidateImage \<Rightarrow> real" where
  "planarDistance lat lon img =
     (case geometry_coordinates img of
        Some (imgLon, imgLat) \<Rightarrow> sqrt ((imgLat - lat)\<^sup>2 + (imgLon - lon)\<^sup>2)
      | None \<Rightarrow> 0.0001)"

text \<open>
  \<open>c\<close> is the earliest image of least score in \<open>imgs\<close>: every image before it
  that has a score has a greater one, and no image after it has a smaller one.
\<close>

definition earliestBest ::
  "real \<Rightarrow> real \<Rightarrow> real \<Rightarrow> candidateImage list \<Rightarrow> candidateImage \<Rightarrow> real \<Rightarrow> bool" where
  "earliestBest lat lon heading imgs c s =
     (\<exists>before after. imgs = before @ c # after \<and>
        scoreOf lat lon heading c = Some s \<and>
        (\<forall>x \<in> set before. \<forall>s'. scoreOf lat lon heading x = Some s' \<longrightarrow> s < s') \<and>
        (\<forall>x \<in> set after. \<forall>s'. scoreOf lat lon heading x = Some s' \<longrightarrow> s \<le> s'))"

text \<open>
  The selection as the specification words it. A candidate survives the filtering when
  it is not panoramic, has a usable display reference, reports a compass angle, lies
  within 0.0002 degrees of the target and faces within 45 degrees of the desired heading;
  its score is then \<open>headingDiff * 3 + planarDistance * 10000\<close>. \<open>None\<close> is a candidate that
  does not survive. A reported angle of 0 (due north) is a reported angle.
\<close>

definition survivorScore :: "real \<Rightarrow> real \<Rightarrow> real \<Rightarrow> candidateImage \<Rightarrow> real option" where
  "survivorScore lat lon heading img =
     (case computed_compass_angle img of
        None \<Rightarrow> None
      | Some angle \<Rightarrow>
          if is_pano img \<or> thumb_2048_url img = None \<or> thumb_2048_url img = Some [] then None
          else if planarDistance lat lon img > 0.0002 then None
          else if headingDiff heading angle > 45 then None
          else Some (headingDiff heading angle * 3 + planarDistance lat lon img * 10000))"

text \<open>
  What the specification asks of the result \<open>r\<close> for the candidates \<open>imgs\<close>: none when no
  candidate survives, and otherwise the record of a surviving candidate of minimum score,
  the earliest one in input order among those of equal score.
\<close>

definition selectsMinimum ::
  "real \<Rightarrow> real \<Rightarrow> real \<Rightarrow> candidateImage list \<Rightarrow> mapillaryImage option \<Rightarrow> bool" where
  "selectsMinimum lat lon heading imgs r =
     (case r of
        None \<Rightarrow> \<forall>img \<in> set imgs. survivorScore lat lon heading img = None
      | Some found \<Rightarrow>
          (\<exists>before c after s.
             imgs = before @ c # after \<and>
             survivorScore lat lon heading c = Some s \<and>
             (\<forall>x \<in> set before. \<forall>s'. survivorScore lat lon heading x = Some s' \<longrightarrow> s < s') \<and>
             (\<forall>x \<in> set after. \<forall>s'. survivorScore lat lon heading x = Some s' \<longrightarrow> s \<le> s') \<and>
             imageId found = image_id c \<and> thumbUrl found = thumb_2048_url c \<and>
             computedCompassAngle found = computed_compass_angle c \<and>
             geometry found = geometry_coordinates c))"

subsection \<open>Orchestrator: merging the batches (\<^verbatim>\<open>handleFormSubmit\<close>)\<close>

definition minImageDistanceKm :: real where
  "minImageDistanceKm = 0.03"

text \<open>
  The four local accumulators. \<^verbatim>\<open>usedImageIds\<close> is a \<^verbatim>\<open>Set\<close>; it is kept here as the
  list of its elements in insertion order, with \<^verbatim>\<open>has\<close> as membership and \<^verbatim>\<open>add\<close> as
  \<open>setAdd\<close>.
\<close>

record accumulator =
  fetchedImages :: "string option list"
  fetchedCoordinates :: "coordinate list"
  usedImageIds :: "string list"
  usedImageLocations :: "coordinate list"

definition setAdd :: "'a \<Rightarrow> 'a list \<Rightarrow> 'a list" where
  "setAdd x xs = (if x \<in> set xs then xs else xs @ [x])"

text \<open>
  Reading \<^verbatim>\<open>imageData.geometry.coordinates\<close> of an image that has none throws a
  \<^verbatim>\<open>TypeError\<close>.
\<close>

datatype runError = TypeError

text \<open>
  The callback of \<^verbatim>\<open>batchResults.forEach\<close>, for one lookup result. The inner \<^verbatim>\<open>for\<close>
  loop with its \<^verbatim>\<open>break\<close> computes whether some used location is closer than the minimum.
\<close>

definition processResult :: "accumulator \<Rightarrow> mapillaryImage option \<Rightarrow> runError + accumulator" where
  "processResult acc imageData =
     (case imageData of
        None \<Rightarrow> Inr acc
      | Some imageData' \<Rightarrow>
          if imageId imageData' \<in> set (usedImageIds acc) then Inr acc
          else
            (case geometry imageData' of
               None \<Rightarrow> Inl TypeError
             | Some (imgLon, imgLat) \<Rightarrow>
                 (let imageCoord = (imgLat, imgLon);
                      tooClose = list_ex (\<lambda>usedLocation.
                                   distance imageCoord usedLocation < minImageDistanceKm)
                                   (usedImageLocations acc)
                  in if \<not> tooClose then
                       Inr (acc\<lparr>fetchedImages := fetchedImages acc @ [thumbUrl imageData'],
                                fetchedCoordinates := fetchedCoordinates acc @ [imageCoord],
                                usedImageIds := setAdd (imageId imageData') (usedImageIds acc),
                                usedImageLocations := usedImageLocations acc @ [imageCoord]\<rparr>)
                     else Inr acc)))"

text \<open>\<^verbatim>\<open>batchResults.forEach(...)\<close>: an exception ends it.\<close>

fun processBatch :: "accumulator \<Rightarrow> mapillaryImage option list \<Rightarrow> runError + accumulator" where
  "processBatch acc [] = Inr acc"
| "processBatch acc (imageData # batchResults) =
     (case processResult acc imageData of
        Inl e \<Rightarrow> Inl e
      | Inr acc' \<Rightarrow> processBatch acc' batchResults)"

text \<open>
  The run: the accumulators, and the two lists last handed to \<^verbatim>\<open>setImages\<close> and
  \<^verbatim>\<open>setCoordinates\<close>, which are what the presentation layer shows.
\<close>

record run =
  accumulators :: accumulator
  shownImages :: "string option list"
  shownCoordinates :: "coordinate list"

definition initialRun :: run where
  "initialRun =
     \<lparr>accumulators = \<lparr>fetchedImages = [], fetchedCoordinates = [],
                        usedImageIds = [], usedImageLocations = []\<rparr>,
      shownImages = [], shownCoordinates = []\<rparr>"

text \<open>
  The loop over the batches. Each batch comes with the value of the cancellation flag at
  the moment the loop tests it and with the results of its lookups (both are inputs: they
  come from the user and from the provider). The loop stops at a set flag; an exception
  in the merge leaves the loop, and the lists shown stay those of the last batch merged.
\<close>

fun runBatches :: "run \<Rightarrow> (bool \<times> mapillaryImage option list) list \<Rightarrow> runError option \<times> run" where
  "runBatches st [] = (None, st)"
| "runBatches st ((cancelled, batchResults) # batches) =
     (if cancelled then (None, st)
      else
        (case processBatch (accumulators st) batchResults of
           Inl e \<Rightarrow> (Some e, st)
         | Inr acc' \<Rightarrow>
             runBatches \<lparr>accumulators = acc', shownImages = fetchedImages acc',
                         shownCoordinates = fetchedCoordinates acc'\<rparr> batches))"

text \<open>What holds of the accumulators throughout.\<close>

definition separated :: "coordinate list \<Rightarrow> bool" where
  "separated cs =
     (\<forall>i j. i < j \<and> j < length cs \<longrightarrow> minImageDistanceKm \<le> distance (cs ! j) (cs ! i))"

definition accumulatorInvariant :: "accumulator \<Rightarrow> bool" where
  "accumulatorInvariant acc =
     (usedImageLocations acc = fetchedCoordinates acc \<and>
      length (fetchedCoordinates acc) = length (fetchedImages acc) \<and>
      length (usedImageIds acc) = length (fetchedImages acc) \<and>
      distinct (usedImageIds acc) \<and>
      separated (fetchedCoordinates acc))"

definition runInvariant :: "run \<Rightarrow> bool" where
  "runInvariant st =
     (accumulatorInvariant (accumulators st) \<and>
      shownImages st = fetchedImages (accumulators st) \<and>
      shownCoordinates st = fetchedCoordinates (accumulators st))"

subsection \<open>Orchestrator: the origin and destination inputs\<close>

text \<open>
  The library functions the two classifiers call, on strings of code units below 256.
  White space is what \<^verbatim>\<open>trim\<close> and \<^verbatim>\<open>parseFloat\<close> strip: tab, line feed, vertical tab,
  form feed, carriage return, space and no-break space.
\<close>

definition isWhiteSpace :: "char \<Rightarrow> bool" where
  "isWhiteSpace c = ((of_char c :: nat) \<in> {9, 10, 11, 12, 13, 32, 160})"

definition trim :: "string \<Rightarrow> string" where
  "trim s = rev (dropWhile isWhiteSpace (rev (dropWhile isWhiteSpace s)))"

text \<open>
  \<^verbatim>\<open>s.split(c)\<close> for a one-character separator (always at least one part), and
  \<^verbatim>\<open>s.includes(c)\<close>, here \<open>includesChar\<close>.
\<close>

fun split :: "char \<Rightarrow> string \<Rightarrow> string list" where
  "split c [] = [[]]"
| "split c (x # xs) =
     (if x = c then [] # split c xs
      else (x # hd (split c xs)) # tl (split c xs))"

definition includesChar :: "char \<Rightarrow> string \<Rightarrow> bool" where
  "includesChar c s = (c \<in> set s)"

definition isDigit :: "char \<Rightarrow> bool" where
  "isDigit c = (48 \<le> (of_char c :: nat) \<and> (of_char c :: nat) \<le> 57)"

definition digitsToNat :: "string \<Rightarrow> nat" where
  "digitsToNat ds = foldl (\<lambda>n c. 10 * n + ((of_char c :: nat) - 48)) 0 ds"

text \<open>An optional sign: whether it is a minus, and the rest.\<close>

definition readSign :: "string \<Rightarrow> bool \<times> string" where
  "readSign s =
     (case s of
        [] \<Rightarrow> (False, [])
      | c # r \<Rightarrow> if c = CHR ''-'' then (True, r) else if c = CHR ''+'' then (False, r) else (False, s))"

text \<open>
  \<^verbatim>\<open>parseFloat\<close>: leading white space is skipped and the longest prefix that is a decimal
  literal is read (sign, \<^verbatim>\<open>Infinity\<close> or digits with an optional fraction and exponent);
  \<^verbatim>\<open>NaN\<close> when there is none. The value is exact here.
\<close>

definition parseFloat :: "string \<Rightarrow> jsNumber" where
  "parseFloat s =
     (let (negative, s1) = readSign (dropWhile isWhiteSpace s)
      in if take 8 s1 = ''Infinity'' then (if negative then NegInfinity else PosInfinity)
         else
           (let intDigits = takeWhile isDigit s1;
                s2 = dropWhile isDigit s1;
                fracDigits = (case s2 of [] \<Rightarrow> []
                              | c # r \<Rightarrow> if c = CHR ''.'' then takeWhile isDigit r else []);
                s3 = (case s2 of [] \<Rightarrow> []
                      | c # r \<Rightarrow> if c = CHR ''.'' then dropWhile isDigit r else s2)
            in if intDigits = [] \<and> fracDigits = [] then NaN
               else
                 (let mantissa = real (digitsToNat intDigits) +
                                 real (digitsToNat fracDigits) / 10 ^ length fracDigits;
                      (expNegative, expDigits) =
                        (case s3 of [] \<Rightarrow> (False, [])
                         | c # r \<Rightarrow>
                             if c = CHR ''e'' \<or> c = CHR ''E''
                             then (fst (readSign r), takeWhile isDigit (snd (readSign r)))
                             else (False, []));
                      magnitude = (if expNegative then mantissa / 10 ^ digitsToNat expDigits
                                   else mantissa * 10 ^ digitsToNat expDigits)
                  in Num (if negative then - magnitude else magnitude))))"

definition isNaN :: "jsNumber \<Rightarrow> bool" where
  "isNaN x = (x = NaN)"

text \<open>\<^verbatim>\<open>x >= r\<close> and \<^verbatim>\<open>x <= r\<close> for a finite \<open>r\<close>: false of \<^verbatim>\<open>NaN\<close>.\<close>

definition atLeast' :: "jsNumber \<Rightarrow> real \<Rightarrow> bool" where
  "atLeast' x r = (case x of Num v \<Rightarrow> r \<le> v | PosInfinity \<Rightarrow> True | _ \<Rightarrow> False)"

definition atMost' :: "jsNumber \<Rightarrow> real \<Rightarrow> bool" where
  "atMost' x r = (case x of Num v \<Rightarrow> v \<le> r | NegInfinity \<Rightarrow> True | _ \<Rightarrow> False)"

definition isCoordinates :: "string \<Rightarrow> bool" where
  "isCoordinates input =
     (let trimmed = trim input;
          parts = split CHR '','' trimmed
      in if length parts \<noteq> 2 then False
         else
           (let first = parseFloat (trim (parts ! 0));
                second = parseFloat (trim (parts ! 1))
            in if isNaN first \<or> isNaN second then False
               else
                 (let isLatLon = (atLeast' first (- 90) \<and> atMost' first 90 \<and>
                                  atLeast' second (- 180) \<and> atMost' second 180);
                      isLonLat = (atLeast' second (- 90) \<and> atMost' second 90 \<and>
                                  atLeast' first (- 180) \<and> atMost' first 180)
                  in isLatLon \<or> isLonLat)))"

text \<open>
  What \<^verbatim>\<open>parseCoordinateInput\<close> returns: the template string \<^verbatim>\<open>`${lon},${lat}`\<close>, kept as
  its two numbers, or the input as it came. \<open>Inl\<close> is the \<^verbatim>\<open>Error\<close> it throws.
\<close>

datatype coordinateText = LonLat jsNumber jsNumber | Unchanged string

datatype inputError = InvalidCoordinates jsNumber jsNumber

definition parseCoordinateInput :: "string \<Rightarrow> inputError + coordinateText" where
  "parseCoordinateInput input =
     (let trimmed = trim input
      in if includesChar CHR '','' trimmed then
           (let parts = map trim (split CHR '','' trimmed)
            in if length parts = 2 then
                 (let lat = parseFloat (parts ! 0);
                      lon = parseFloat (parts ! 1)
                  in if \<not> isNaN lat \<and> \<not> isNaN lon then
                       (if atLeast' lat (- 90) \<and> atMost' lat 90 \<and>
                           atLeast' lon (- 180) \<and> atMost' lon 180
                        then Inr (LonLat lon lat)
                        else Inl (InvalidCoordinates lat lon))
                     else Inr (Unchanged input))
               else Inr (Unchanged input))
         else Inr (Unchanged input))"

text \<open>
  The first two steps of \<^verbatim>\<open>handleFormSubmit\<close> for one input: coordinates are parsed,
  anything else goes to the geocoder (\<open>None\<close> here).
\<close>

definition resolveInput :: "string \<Rightarrow> (inputError + coordinateText) option" where
  "resolveInput input =
     (if isCoordinates input then Some (parseCoordinateInput input) else None)"

subsection \<open>Images used in the examples\<close>

text \<open>
  Two images scoring 31.5 and 16.9 against the target \<open>(0, 0)\<close> and heading 100, a third
  that ties with the second, an image facing due north, and one without coordinates.
\<close>

definition sampleA :: candidateImage where
  "sampleA = \<lparr>image_id = ''A'', is_pano = False, thumb_2048_url = Some ''a.jpg'',
     computed_compass_angle = Some 110, geometry_coordinates = Some (0, 0.00015)\<rparr>"

definition sampleB :: candidateImage where
  "sampleB = \<lparr>image_id = ''B'', is_pano = False, thumb_2048_url = Some ''b.jpg'',
     computed_compass_angle = Some 105, geometry_coordinates = Some (0, 0.00019)\<rparr>"

definition sampleB' :: candidateImage where
  "sampleB' = \<lparr>image_id = ''C'', is_pano = False, thumb_2048_url = Some ''c.jpg'',
     computed_compass_angle = Some 95, geometry_coordinates = Some (0, - 0.00019)\<rparr>"

definition northFacing :: candidateImage where
  "northFacing = \<lparr>image_id = ''N'', is_pano = False, thumb_2048_url = Some ''n.jpg'',
     computed_compass_angle = Some 0, geometry_coordinates = Some (0, 0)\<rparr>"

definition noGeometry :: candidateImage where
  "noGeometry = \<lparr>image_id = ''G'', is_pano = False, thumb_2048_url = Some ''g.jpg'',
     computed_compass_angle = Some 100, geometry_coordinates = None\<rparr>"

text \<open>An image on the target that faces 10 degrees east of north.\<close>

definition facingTen :: candidateImage where
  "facingTen = \<lparr>image_id = ''T'', is_pano = False, thumb_2048_url = Some ''t.jpg'',
     computed_compass_angle = Some 10, geometry_coordinates = Some (0, 0)\<rparr>"

text \<open>
  Routes for the sampler: the quarter of the equator from \<open>(0, 0)\<close> to \<open>(0, 90)\<close>, alone
  and after a repeated point.
\<close>

definition quarterEquator :: "point list" where
  "quarterEquator = [(Num 0, Num 0), (Num 0, Num 90)]"






text \<open>
  Lookup results for the merge: two images at the same place, a third a quarter of the
  equator away, and three batches of them, the last one cancelled.
\<close>

definition imgP :: mapillaryImage where
  "imgP = \<lparr>imageId = ''p'', thumbUrl = Some ''p.jpg'', computedCompassAngle = Some 10,
            geometry = Some (0, 0)\<rparr>"

definition imgQ :: mapillaryImage where
  "imgQ = \<lparr>imageId = ''q'', thumbUrl = Some ''q.jpg'', computedCompassAngle = Some 10,
            geometry = Some (0, 0)\<rparr>"

definition imgR :: mapillaryImage where
  "imgR = \<lparr>imageId = ''r'', thumbUrl = Some ''r.jpg'', computedCompassAngle = Some 10,
            geometry = Some (90, 0)\<rparr>"

definition sampleBatches :: "(bool \<times> mapillaryImage option list) list" where
  "sampleBatches =
     [(False, [Some imgP, Some imgP, None, Some imgQ]), (False, [Some imgR]), (True, [Some imgQ])]"

section \<open>Properties\<close>

subsection \<open>Polyline decoder: truncated input\<close>

lemma readChunk_terminator:
  "readChunk (str @ ''?'') index shift res = readChunk str index shift res"
proof (induction str index shift res rule: readChunk.induct)
  case (1 str index shift result)
  show ?case
  proof (cases "index < length str")
    case True
    show ?thesis
    proof (cases "0x20 \<le> int (of_char (str ! index) :: nat) - 63")
      case c: True
      have "readChunk (str @ ''?'') (index + 1) (shift + 5)
          (result OR push_bit (shift mod 32)
             (word_of_int ((int (of_char (str ! index) :: nat) - 63) AND 0x1f)))
        = readChunk str (index + 1) (shift + 5)
          (result OR push_bit (shift mod 32)
             (word_of_int ((int (of_char (str ! index) :: nat) - 63) AND 0x1f)))"
        using 1 True c by simp
      then show ?thesis
        using True c
        by (subst readChunk.simps, subst (2) readChunk.simps) (simp add: Let_def nth_append)
    next
      case c: False
      then show ?thesis
        using True
        by (subst readChunk.simps, subst (2) readChunk.simps) (simp add: Let_def nth_append)
    qed
  next
    case False
    then show ?thesis
      by (subst readChunk.simps, subst (2) readChunk.simps)
         (auto simp: Let_def nth_append readChunk.simps[of "str @ ''?''" "Suc (length str)"])
  qed
qed

lemma readChunk_not_end:
  "endsMidGroup str \<Longrightarrow> snd (readChunk str index shift res) \<noteq> length str"
proof (induction str index shift res rule: readChunk.induct)
  case (1 str index shift result)
  show ?case
  proof (cases "index < length str")
    case True
    show ?thesis
    proof (cases "0x20 \<le> int (of_char (str ! index) :: nat) - 63")
      case c: True
      have "snd (readChunk str (index + 1) (shift + 5)
          (result OR push_bit (shift mod 32)
             (word_of_int ((int (of_char (str ! index) :: nat) - 63) AND 0x1f)))) \<noteq> length str"
        using 1 True c by simp
      then show ?thesis
        using True c by (subst readChunk.simps) (simp add: Let_def)
    next
      case c: False
      have "index + 1 \<noteq> length str"
      proof
        assume "index + 1 = length str"
        then have "index = length str - 1" by simp
        then have "str ! index = last str"
          using "1.prems" by (simp add: endsMidGroup_def last_conv_nth)
        then show False using c "1.prems" by (simp add: endsMidGroup_def)
      qed
      then show ?thesis
        using True c by (subst readChunk.simps) (simp add: Let_def)
    qed
  next
    case False
    then show ?thesis
      by (subst readChunk.simps) auto
  qed
qed

lemma decodeLoop_terminator:
  "endsMidGroup str \<Longrightarrow> index \<noteq> length str \<Longrightarrow>
   decodeLoop (str @ ''?'') factor index lat lng coordinates =
   decodeLoop str factor index lat lng coordinates"
proof (induction str factor index lat lng coordinates rule: decodeLoop.induct)
  case (1 str factor index lat lng coordinates)
  show ?case
  proof (cases "index < length str")
    case True
    obtain result1 index1 where r1: "readChunk str index 0 0 = (result1, index1)"
      by (cases "readChunk str index 0 0")
    obtain result2 index2 where r2: "readChunk str index1 0 0 = (result2, index2)"
      by (cases "readChunk str index1 0 0")
    have ne: "index2 \<noteq> length str"
      using readChunk_not_end[OF "1.prems"(1), of index1 0 0] r2 by simp
    have ih: "decodeLoop (str @ ''?'') factor index2 (lat + coordinateChange result1)
          (lng + coordinateChange result2)
          (coordinates @ [(real_of_int (lat + coordinateChange result1) / factor,
                           real_of_int (lng + coordinateChange result2) / factor)])
        = decodeLoop str factor index2 (lat + coordinateChange result1)
          (lng + coordinateChange result2)
          (coordinates @ [(real_of_int (lat + coordinateChange result1) / factor,
                           real_of_int (lng + coordinateChange result2) / factor)])"
      using "1.IH"[OF True r1[symmetric] refl refl r2[symmetric] refl refl refl refl "1.prems"(1) ne]
      by simp
    show ?thesis
      using True r1 r2 ih
      by (subst decodeLoop.simps, subst (2) decodeLoop.simps)
         (simp add: Let_def readChunk_terminator)
  next
    case False
    then show ?thesis
      using "1.prems"
      by (subst decodeLoop.simps, subst (2) decodeLoop.simps) simp
  qed
qed

lemma decodeLoop_length:
  "length coordinates \<le> length (decodeLoop str factor index lat lng coordinates)"
proof (induction str factor index lat lng coordinates rule: decodeLoop.induct)
  case (1 str factor index lat lng coordinates)
  show ?case
  proof (cases "index < length str")
    case True
    obtain result1 index1 where r1: "readChunk str index 0 0 = (result1, index1)"
      by (cases "readChunk str index 0 0")
    obtain result2 index2 where r2: "readChunk str index1 0 0 = (result2, index2)"
      by (cases "readChunk str index1 0 0")
    show ?thesis
      using "1.IH"[OF True r1[symmetric] refl refl r2[symmetric] refl refl refl refl] True r1 r2
      by (subst decodeLoop.simps) (simp add: Let_def)
  next
    case False
    then show ?thesis by (subst decodeLoop.simps) simp
  qed
qed

lemma decodeLoop_nonempty:
  "index < length str \<Longrightarrow> decodeLoop str factor index lat lng coordinates \<noteq> []"
proof -
  assume lt: "index < length str"
  obtain result1 index1 where r1: "readChunk str index 0 0 = (result1, index1)"
    by (cases "readChunk str index 0 0")
  obtain result2 index2 where r2: "readChunk str index1 0 0 = (result2, index2)"
    by (cases "readChunk str index1 0 0")
  have "decodeLoop str factor index lat lng coordinates =
      decodeLoop str factor index2 (lat + coordinateChange result1)
          (lng + coordinateChange result2)
          (coordinates @ [(real_of_int (lat + coordinateChange result1) / factor,
                           real_of_int (lng + coordinateChange result2) / factor)])"
    using lt r1 r2 by (subst decodeLoop.simps) (simp add: Let_def)
  then show ?thesis
    using decodeLoop_length[of "coordinates @ [(real_of_int (lat + coordinateChange result1) / factor,
                           real_of_int (lng + coordinateChange result2) / factor)]" str factor index2
         "lat + coordinateChange result1" "lng + coordinateChange result2"]
    by auto
qed

text \<open>
  Claim C4, as amended. The decoder has no error path. For the empty string it returns
  the empty sequence. For a string that ends in the middle of a group it raises nothing
  and returns a non-empty coordinate sequence: the missing bytes read as a closing zero
  chunk, so the result is the one for the input extended by the terminator
  character \<^verbatim>\<open>?\<close> (code 63).
\<close>

theorem decode_truncated_no_error:
  "decode [] precision = [] \<and>
   (endsMidGroup str \<longrightarrow>
      decode str precision \<noteq> [] \<and> decode str precision = decode (str @ ''?'') precision)"
proof -
  have "decode [] precision = []"
    by (simp add: decode_def decodeLoop.simps)
  moreover have "decode str precision \<noteq> []" if "endsMidGroup str"
    using that decodeLoop_nonempty[of 0 str] by (simp add: decode_def endsMidGroup_def)
  moreover have "decode str precision = decode (str @ ''?'') precision" if "endsMidGroup str"
    using that decodeLoop_terminator[of str 0] by (simp add: decode_def endsMidGroup_def)
  ultimately show ?thesis by simp
qed

theorem decode_truncated_no_error_witness:
  "endsMidGroup ''_p~iF~ps|'' \<and> decode ''_p~iF~ps|'' 5 \<noteq> [] \<and>
   decode ''_p~iF~ps|'' 5 = decode ''_p~iF~ps|?'' 5 \<and>
   decode ''_p~iF~ps|'' 5 = [(77 / 2, - (15177 / 3125))]"
  using decode_truncated_no_error[of 5 "''_p~iF~ps|''"]
  by (simp add: endsMidGroup_def decode_def decodeLoop.simps readChunk.simps
      coordinateChange_def Let_def)

text \<open>
  Claim C4 as stated fails: the one-character string \<^verbatim>\<open>_\<close> (code 95, a continuation
  byte with nothing after it) ends in the middle of a group, and the decoder returns the
  point \<open>(0, 0)\<close> for it instead of raising.
\<close>

theorem decode_truncated_counterexample:
  "endsMidGroup ''_'' \<and> decode ''_'' 5 = [(0, 0)]"
  by (simp add: endsMidGroup_def decode_def decodeLoop.simps readChunk.simps
      coordinateChange_def Let_def)

text \<open>The documented sample of the encoding decodes to its three points.\<close>

lemma decode_sample:
  "decode ''_p~iF~ps|U_ulLnnqC_mqNvxq`@'' 5 =
     [(38.5, -120.2), (40.7, -120.95), (43.252, -126.453)]"
  by (simp add: decode_def decodeLoop.simps readChunk.simps coordinateChange_def Let_def)

subsection \<open>Doubles and rounding\<close>

lemma roundTiesToEven_cases:
  "roundTiesToEven y = \<lfloor>y\<rfloor> \<or> roundTiesToEven y = \<lfloor>y\<rfloor> + 1"
  by (simp add: roundTiesToEven_def Let_def)


lemma roundTiesToEven_of_int [simp]: "roundTiesToEven (of_int n) = n"
  by (simp add: roundTiesToEven_def)

lemma roundTiesToEven_zero [simp]: "roundTiesToEven 0 = 0"
  using roundTiesToEven_of_int[of 0] by simp

lemma roundTiesToEven_mono:
  assumes "y \<le> z"
  shows "roundTiesToEven y \<le> roundTiesToEven z"
proof (cases "\<lfloor>y\<rfloor> = \<lfloor>z\<rfloor>")
  case True
  then show ?thesis
    using assms by (auto simp: roundTiesToEven_def Let_def)
next
  case False
  then have "\<lfloor>y\<rfloor> < \<lfloor>z\<rfloor>" using assms floor_mono[OF assms] by linarith
  then have "\<lfloor>y\<rfloor> + 1 \<le> \<lfloor>z\<rfloor>" by simp
  moreover have "roundTiesToEven y \<le> \<lfloor>y\<rfloor> + 1"
    using roundTiesToEven_cases[of y] by auto
  moreover have "\<lfloor>z\<rfloor> \<le> roundTiesToEven z"
    using roundTiesToEven_cases[of z] by auto
  ultimately show ?thesis by linarith
qed

lemma roundTiesToEven_minus: "roundTiesToEven (- y) = - roundTiesToEven y"
proof (cases "of_int \<lfloor>y\<rfloor> = y")
  case True
  then obtain n where "y = of_int n" by metis
  then show ?thesis
    by (simp add: roundTiesToEven_of_int[of "- n", simplified])
next
  case False
  then have f: "\<lfloor>- y\<rfloor> = - \<lfloor>y\<rfloor> - 1"
    by (simp add: floor_minus ceiling_altdef)
  have r: "of_int \<lfloor>y\<rfloor> \<le> y" "y < of_int \<lfloor>y\<rfloor> + 1" by linarith+
  show ?thesis
    unfolding roundTiesToEven_def Let_def f using r False
    by (auto simp: field_simps)
qed

lemma quantum_pos [simp]: "0 < quantum x"
  by (simp add: quantum_def)

lemma quantum_nonneg [simp]: "0 \<le> quantum x"
  by (simp add: quantum_def)

lemma binade_ge: "- 1022 \<le> binade x"
  by (simp add: binade_def)

lemma binade_upper:
  assumes "x \<noteq> 0"
  shows "\<bar>x\<bar> < 2 powr (of_int (binade x) + 1)"
proof -
  define k where "k = \<lfloor>log 2 \<bar>x\<bar>\<rfloor>"
  have "2 powr of_int k \<le> \<bar>x\<bar> \<and> \<bar>x\<bar> < 2 powr (of_int k + 1)"
    using floor_log_eq_powr_iff[of "\<bar>x\<bar>" 2 k] assms by (simp add: k_def)
  moreover have "k \<le> binade x" using assms by (simp add: binade_def k_def)
  then have "2 powr (of_int k + 1) \<le> (2::real) powr (of_int (binade x) + 1)"
    by simp
  ultimately show ?thesis by linarith
qed

lemma binade_lower:
  assumes "2 powr (- 1022) \<le> \<bar>x\<bar>"
  shows "2 powr of_int (binade x) \<le> \<bar>x\<bar>"
proof -
  define k where "k = \<lfloor>log 2 \<bar>x\<bar>\<rfloor>"
  have x: "0 < \<bar>x\<bar>"
    using assms by (smt (verit) powr_gt_zero)
  have b: "2 powr of_int k \<le> \<bar>x\<bar>" "\<bar>x\<bar> < 2 powr (of_int k + 1)"
    using floor_log_eq_powr_iff[of "\<bar>x\<bar>" 2 k] x by (simp_all add: k_def)
  have "(2::real) powr (- 1022) < 2 powr (of_int k + 1)"
    using assms b(2) by linarith
  then have "- 1022 < (of_int k + 1 :: real)" by simp
  then have "- 1022 \<le> k" by linarith
  then have "binade x = k" using x by (simp add: binade_def k_def)
  then show ?thesis using b(1) by simp
qed

lemma binade_eq:
  assumes "2 powr of_int e \<le> \<bar>x\<bar>" "\<bar>x\<bar> < 2 powr (of_int e + 1)" "- 1022 \<le> e"
  shows "binade x = e"
proof -
  have x: "0 < \<bar>x\<bar>"
    using assms(1) by (smt (verit) powr_gt_zero)
  have "\<lfloor>log 2 \<bar>x\<bar>\<rfloor> = e"
    using floor_log_eq_powr_iff[of "\<bar>x\<bar>" 2 e] x assms by simp
  then show ?thesis using assms(3) x by (simp add: binade_def)
qed

lemma binade_subnormal:
  assumes "\<bar>x\<bar> < 2 powr (- 1022)"
  shows "binade x = - 1022"
proof (cases "x = 0")
  case True
  then show ?thesis by (simp add: binade_def)
next
  case False
  define k where "k = \<lfloor>log 2 \<bar>x\<bar>\<rfloor>"
  have b: "2 powr of_int k \<le> \<bar>x\<bar>"
    using floor_log_eq_powr_iff[of "\<bar>x\<bar>" 2 k] False by (simp add: k_def)
  then have "(2::real) powr of_int k < 2 powr (- 1022)" using assms by linarith
  then have "(of_int k :: real) < - 1022" by simp
  then have "k \<le> - 1022" by linarith
  then show ?thesis using False by (simp add: binade_def k_def)
qed


lemma quantum_normal:
  assumes "2 powr (- 1022) \<le> \<bar>x\<bar>"
  shows "quantum x \<le> 2 powr (- 52) * \<bar>x\<bar>"
proof -
  have "quantum x = 2 powr (- 52) * 2 powr of_int (binade x)"
    by (simp add: quantum_def powr_add[symmetric])
  then show ?thesis using binade_lower[OF assms] by simp
qed

lemma quantum_subnormal:
  assumes "\<bar>x\<bar> < 2 powr (- 1022)"
  shows "quantum x = 2 powr (- 1074)"
  by (simp add: quantum_def binade_subnormal[OF assms])

lemma quantum_le: "quantum x \<le> 2 powr (- 52) * \<bar>x\<bar> + 2 powr (- 1074)"
proof (cases "2 powr (- 1022) \<le> \<bar>x\<bar>")
  case True
  then show ?thesis using quantum_normal[OF True] by (smt (verit) powr_gt_zero)
next
  case False
  then show ?thesis using quantum_subnormal[of x] by simp
qed

lemma quantum_top: "2 powr (of_int (binade x) + 1) = 2 ^ 53 * quantum x"
proof -
  have "(2::real) powr (of_int (binade x) + 1) = 2 powr (53 + (of_int (binade x) - 52))"
    by (simp add: algebra_simps)
  also have "\<dots> = 2 powr 53 * 2 powr (of_int (binade x) - 52)"
    by (rule powr_add)
  also have "(2::real) powr 53 = 2 ^ 53" by simp
  finally show ?thesis by (simp add: quantum_def)
qed

lemma quantum_bottom: "2 powr of_int (binade x) = 2 ^ 52 * quantum x"
proof -
  have "(2::real) powr of_int (binade x) = 2 powr (52 + (of_int (binade x) - 52))"
    by (simp add: algebra_simps)
  also have "\<dots> = 2 powr 52 * 2 powr (of_int (binade x) - 52)"
    by (rule powr_add)
  also have "(2::real) powr 52 = 2 ^ 52" by simp
  finally show ?thesis by (simp add: quantum_def)
qed

lemma fl_zero [simp]: "fl 0 = 0"
  by (simp add: fl_def)

lemma binade_minus [simp]: "binade (- x) = binade x"
  by (simp add: binade_def)

lemma quantum_minus [simp]: "quantum (- x) = quantum x"
  by (simp add: quantum_def)

lemma fl_minus: "fl (- x) = - fl x"
  by (simp add: fl_def roundTiesToEven_minus)

lemma fl_nonneg: "0 \<le> x \<Longrightarrow> 0 \<le> fl x"
proof -
  assume "0 \<le> x"
  then have "0 \<le> x / quantum x" by (intro divide_nonneg_pos quantum_pos)
  then have "roundTiesToEven 0 \<le> roundTiesToEven (x / quantum x)"
    by (rule roundTiesToEven_mono)
  then have "0 \<le> roundTiesToEven (x / quantum x)"
    by simp
  then show ?thesis by (simp add: fl_def zero_le_mult_iff)
qed

lemma fl_mono_pos:
  assumes "0 < x" "x \<le> y"
  shows "fl x \<le> fl y"
proof -
  have bxy: "binade x \<le> binade y"
  proof -
    have "log 2 \<bar>x\<bar> \<le> log 2 \<bar>y\<bar>" using assms by simp
    then have "\<lfloor>log 2 \<bar>x\<bar>\<rfloor> \<le> \<lfloor>log 2 \<bar>y\<bar>\<rfloor>" by (rule floor_mono)
    then show ?thesis using assms by (simp add: binade_def)
  qed
  show ?thesis
  proof (cases "binade x = binade y")
    case True
    then have q: "quantum x = quantum y" by (simp add: quantum_def)
    have "x / quantum y \<le> y / quantum y"
      using assms(2) by (intro divide_right_mono less_imp_le[OF quantum_pos])
    then have "roundTiesToEven (x / quantum y) \<le> roundTiesToEven (y / quantum y)"
      by (rule roundTiesToEven_mono)
    then show ?thesis
      unfolding fl_def q by (simp add: mult_right_mono)
  next
    case False
    then have lt: "binade x < binade y" using bxy by simp
    define b where "b = binade x"
    define c where "c = binade y"
    have x: "x < 2 powr (of_int b + 1)"
      using binade_upper[of x] assms(1) by (simp add: b_def)
    have "x / quantum x \<le> 2 ^ 53"
    proof -
      have "x < 2 ^ 53 * quantum x" using x quantum_top[of x] by (simp add: b_def)
      then show ?thesis by (simp add: field_simps)
    qed
    then have "roundTiesToEven (x / quantum x) \<le> roundTiesToEven (of_int (2 ^ 53))"
      by (intro roundTiesToEven_mono) simp
    then have "roundTiesToEven (x / quantum x) \<le> 2 ^ 53"
      unfolding roundTiesToEven_of_int .
    then have "of_int (roundTiesToEven (x / quantum x)) \<le> (2 ^ 53 :: real)"
      by (metis of_int_le_iff of_int_numeral of_int_power)
    then have "fl x \<le> 2 ^ 53 * quantum x"
      unfolding fl_def by (intro mult_right_mono) simp_all
    also have "\<dots> = 2 powr (of_int b + 1)"
      using quantum_top[of x] by (simp add: b_def)
    also have "\<dots> \<le> 2 powr of_int c"
      using lt by (simp add: b_def c_def)
    finally have up: "fl x \<le> 2 powr of_int c" .
    have yn: "2 powr (- 1022) \<le> \<bar>y\<bar>"
    proof (rule ccontr)
      assume "\<not> 2 powr (- 1022) \<le> \<bar>y\<bar>"
      then have "binade y = - 1022" by (intro binade_subnormal) simp
      then show False using lt binade_ge[of x] by simp
    qed
    have y: "2 powr of_int c \<le> y"
      using binade_lower[OF yn] assms by (simp add: c_def)
    have "2 ^ 52 \<le> y / quantum y"
    proof -
      have "2 ^ 52 * quantum y \<le> y" using y quantum_bottom[of y] by (simp add: c_def)
      then show ?thesis by (simp add: field_simps)
    qed
    then have "roundTiesToEven (of_int (2 ^ 52)) \<le> roundTiesToEven (y / quantum y)"
      by (intro roundTiesToEven_mono) simp
    then have "2 ^ 52 \<le> roundTiesToEven (y / quantum y)"
      unfolding roundTiesToEven_of_int .
    then have "(2 ^ 52 :: real) \<le> of_int (roundTiesToEven (y / quantum y))"
      by (metis of_int_le_iff of_int_numeral of_int_power)
    then have "2 ^ 52 * quantum y \<le> fl y"
      unfolding fl_def by (intro mult_right_mono) simp_all
    moreover have "2 ^ 52 * quantum y = 2 powr of_int c"
      using quantum_bottom[of y] by (simp add: c_def)
    ultimately show ?thesis using up by linarith
  qed
qed

lemma fl_abs_ge:
  assumes "2 powr (- 1022) \<le> \<bar>x\<bar>"
  shows "2 powr of_int (binade x) \<le> \<bar>fl x\<bar>"
proof -
  have pos: "2 powr of_int (binade y) \<le> fl y" if "2 powr (- 1022) \<le> y" for y
  proof -
    have y: "2 powr of_int (binade y) \<le> y"
      using binade_lower[of y] that by (smt (verit) powr_gt_zero)
    have "2 ^ 52 * quantum y \<le> y" using y quantum_bottom[of y] by simp
    then have "of_int (2 ^ 52) \<le> y / quantum y" by (simp add: field_simps)
    then have "roundTiesToEven (of_int (2 ^ 52)) \<le> roundTiesToEven (y / quantum y)"
      by (rule roundTiesToEven_mono)
    then have "2 ^ 52 \<le> roundTiesToEven (y / quantum y)"
      unfolding roundTiesToEven_of_int .
    then have "(of_int (2 ^ 52) :: real) \<le> of_int (roundTiesToEven (y / quantum y))"
      by (simp only: of_int_le_iff)
    then have "of_int (2 ^ 52) * quantum y \<le> fl y"
      unfolding fl_def by (intro mult_right_mono) simp_all
    then show ?thesis using quantum_bottom[of y] by simp
  qed
  show ?thesis
  proof (cases "0 \<le> x")
    case True
    then show ?thesis using pos[of x] assms by (smt (verit) powr_gt_zero)
  next
    case False
    then have "2 powr of_int (binade (- x)) \<le> fl (- x)"
      using assms by (intro pos) simp
    then show ?thesis by (simp add: fl_minus)
  qed
qed

lemma fl_mono:
  assumes "x \<le> y"
  shows "fl x \<le> fl y"
proof -
  consider "0 < x" | "x \<le> 0" "0 \<le> y" | "y < 0" using assms by linarith
  then show ?thesis
  proof cases
    case 1
    then show ?thesis using assms by (rule fl_mono_pos)
  next
    case 2
    have "0 \<le> fl (- x)" using 2(1) by (intro fl_nonneg) simp
    then have "fl x \<le> 0" by (simp add: fl_minus)
    then show ?thesis using fl_nonneg[OF 2(2)] by linarith
  next
    case 3
    then have "fl (- y) \<le> fl (- x)" using assms by (intro fl_mono_pos) simp_all
    then show ?thesis by (simp add: fl_minus)
  qed
qed

lemma fl_eval:
  assumes "2 powr of_int e \<le> \<bar>x\<bar>" "\<bar>x\<bar> < 2 powr (of_int e + 1)" "- 1022 \<le> e"
  shows "fl x = of_int (roundTiesToEven (x / 2 powr (of_int e - 52))) * 2 powr (of_int e - 52)"
  by (simp add: fl_def quantum_def binade_eq[OF assms])


lemma fl_multiple:
  assumes "x = of_int n * quantum x"
  shows "fl x = x"
proof -
  have "x / quantum x = of_int n"
    using assms by (metis nonzero_mult_div_cancel_right quantum_pos less_irrefl)
  then show ?thesis using assms by (simp add: fl_def)
qed

lemma fl_double:
  assumes "d \<in> doubles"
  shows "fl d = d"
proof (cases "d = 0")
  case True
  then show ?thesis by simp
next
  case False
  obtain m e where d: "d = of_int m * 2 powr of_int e" and m: "\<bar>m\<bar> < 2 ^ 53"
    and e: "- 1074 \<le> e" "e \<le> 971"
    using assms unfolding doubles_def by blast
  have m0: "m \<noteq> 0" using False d by auto
  define b where "b = binade d"
  have "\<bar>d\<bar> = of_int \<bar>m\<bar> * 2 powr of_int e" by (simp add: d abs_mult)
  moreover have "(of_int \<bar>m\<bar> :: real) < 2 ^ 53"
    using m by (metis of_int_less_iff of_int_numeral of_int_power)
  ultimately have lt: "\<bar>d\<bar> < 2 powr (53 + of_int e)"
    by (simp add: powr_add)
  have be: "b - 52 \<le> e"
  proof (cases "2 powr (- 1022) \<le> \<bar>d\<bar>")
    case True
    have "2 powr of_int b \<le> \<bar>d\<bar>" using binade_lower[OF True] by (simp add: b_def)
    then have "(2::real) powr of_int b < 2 powr (53 + of_int e)" using lt by linarith
    then have "(of_int b :: real) < 53 + of_int e" by simp
    then show ?thesis by linarith
  next
    case False
    then have "b = - 1022" unfolding b_def by (intro binade_subnormal) simp
    then show ?thesis using e by simp
  qed
  define j where "j = nat (e - (b - 52))"
  have j: "of_int e = (of_int (b - 52) :: real) + real j"
    using be by (simp add: j_def)
  have q: "quantum d = 2 powr of_int (b - 52)"
    by (simp add: quantum_def b_def)
  have "2 powr of_int e = 2 powr of_int (b - 52) * (2::real) ^ j"
    unfolding j by (simp only: powr_add powr_realpow[of 2 j, simplified])
  then have "d = of_int (m * 2 ^ j) * quantum d"
    unfolding q by (simp add: d)
  then show ?thesis by (rule fl_multiple)
qed



lemma fl_in_doubles:
  assumes "\<bar>fl x\<bar> \<le> maxDouble"
  shows "fl x \<in> doubles"
proof (cases "x = 0")
  case True
  have "(0::real) = of_int 0 * 2 powr of_int 0" by simp
  then have "(0::real) \<in> doubles"
    unfolding doubles_def by (intro CollectI exI[of _ 0] conjI) simp_all
  then show ?thesis using True by simp
next
  case False
  define b where "b = binade x"
  define R where "R = roundTiesToEven (x / quantum x)"
  have q: "quantum x = 2 powr of_int (b - 52)"
    by (simp add: quantum_def b_def)
  have flx: "fl x = of_int R * 2 powr of_int (b - 52)"
    by (simp add: fl_def R_def q)
  have "\<bar>x\<bar> < 2 powr (of_int b + 1)"
    using binade_upper[OF False] by (simp add: b_def)
  then have "\<bar>x\<bar> < 2 ^ 53 * quantum x"
    using quantum_top[of x] by (simp add: b_def)
  then have ax: "\<bar>x\<bar> / quantum x < 2 ^ 53"
    by (simp add: field_simps)
  have R53: "\<bar>R\<bar> \<le> 2 ^ 53"
  proof -
    have "x / quantum x \<le> \<bar>x\<bar> / quantum x"
      by (intro divide_right_mono) simp_all
    moreover have "(- \<bar>x\<bar>) / quantum x \<le> x / quantum x"
      by (intro divide_right_mono) simp_all
    ultimately have "x / quantum x \<le> 2 ^ 53" "- (2 ^ 53) \<le> x / quantum x"
      using ax by simp_all
    then have h: "x / quantum x \<le> of_int (2 ^ 53)" "of_int (- (2 ^ 53)) \<le> x / quantum x"
      by simp_all
    have "R \<le> roundTiesToEven (of_int (2 ^ 53))"
      unfolding R_def by (rule roundTiesToEven_mono[OF h(1)])
    moreover have "roundTiesToEven (of_int (- (2 ^ 53))) \<le> R"
      unfolding R_def by (rule roundTiesToEven_mono[OF h(2)])
    ultimately show ?thesis unfolding roundTiesToEven_of_int by simp
  qed
  have bge: "- 1022 \<le> b" by (simp add: b_def binade_ge)
  have md: "maxDouble < 2 powr 1024"
    by (simp add: maxDouble_def)
  have step: "(2::real) powr of_int (b - 51) = 2 * 2 powr of_int (b - 52)"
  proof -
    have "(2::real) powr of_int (b - 51) = 2 powr (1 + of_int (b - 52))"
      by (simp add: algebra_simps)
    also have "\<dots> = 2 powr 1 * 2 powr of_int (b - 52)" by (rule powr_add)
    finally show ?thesis by simp
  qed
  show ?thesis
  proof (cases "\<bar>R\<bar> = 2 ^ 53")
    case True
    have "\<bar>of_int R :: real\<bar> = of_int \<bar>R\<bar>" by simp
    then have aR: "\<bar>of_int R :: real\<bar> = 2 ^ 53" unfolding True by simp
    have "\<bar>fl x\<bar> = \<bar>of_int R :: real\<bar> * 2 powr of_int (b - 52)"
      unfolding flx by (simp add: abs_mult)
    then have "\<bar>fl x\<bar> = 2 ^ 53 * quantum x" unfolding aR q .
    then have "\<bar>fl x\<bar> = 2 powr (of_int b + 1)"
      using quantum_top[of x] by (simp add: b_def)
    then have "(2::real) powr (of_int b + 1) < 2 powr 1024"
      using assms md by linarith
    then have "(of_int b :: real) + 1 < 1024" by (rule powr_less_cancel) simp
    then have b: "b \<le> 1022" by linarith
    from True have "R = 2 ^ 53 \<or> R = - (2 ^ 53)" by linarith
    then show ?thesis
    proof
      assume "R = 2 ^ 53"
      then have e: "fl x = of_int (2 ^ 52) * 2 powr of_int (b - 51)"
        unfolding flx step by simp
      show ?thesis
        unfolding doubles_def
      proof (intro CollectI exI conjI)
        show "fl x = of_int (2 ^ 52) * 2 powr of_int (b - 51)" by (rule e)
        show "\<bar>2 ^ 52 :: int\<bar> < 2 ^ 53" by simp
        show "- 1074 \<le> b - 51" using bge by simp
        show "b - 51 \<le> 971" using b by simp
      qed
    next
      assume "R = - (2 ^ 53)"
      then have e: "fl x = of_int (- (2 ^ 52)) * 2 powr of_int (b - 51)"
        unfolding flx step by simp
      show ?thesis
        unfolding doubles_def
      proof (intro CollectI exI conjI)
        show "fl x = of_int (- (2 ^ 52)) * 2 powr of_int (b - 51)" by (rule e)
        show "\<bar>- (2 ^ 52) :: int\<bar> < 2 ^ 53" by simp
        show "- 1074 \<le> b - 51" using bge by simp
        show "b - 51 \<le> 971" using b by simp
      qed
    qed
  next
    case False
    then have R: "\<bar>R\<bar> < 2 ^ 53" using R53 by simp
    have "b \<le> 1023"
    proof (rule ccontr)
      assume "\<not> b \<le> 1023"
      then have b: "1024 \<le> b" by simp
      have xn: "2 powr (- 1022) \<le> \<bar>x\<bar>"
      proof (rule ccontr)
        assume "\<not> 2 powr (- 1022) \<le> \<bar>x\<bar>"
        then have "binade x = - 1022" by (intro binade_subnormal) simp
        then show False using b by (simp add: b_def)
      qed
      have "2 powr of_int b \<le> \<bar>fl x\<bar>"
        using fl_abs_ge[OF xn] by (simp add: b_def)
      moreover have "(2::real) powr 1024 \<le> 2 powr of_int b"
        using b by (intro powr_mono) simp_all
      ultimately show False using assms md by linarith
    qed
    then have b: "b \<le> 1023" .
    show ?thesis
      unfolding doubles_def
    proof (intro CollectI exI conjI)
      show "fl x = of_int R * 2 powr of_int (b - 52)" by (rule flx)
      show "\<bar>R\<bar> < 2 ^ 53" by (rule R)
      show "- 1074 \<le> b - 52" using bge by simp
      show "b - 52 \<le> 971" using b by simp
    qed
  qed
qed

lemma doubles_le_maxDouble:
  assumes "d \<in> doubles"
  shows "\<bar>d\<bar> \<le> maxDouble"
proof -
  obtain m e where d: "d = of_int m * 2 powr of_int e" and m: "\<bar>m\<bar> < 2 ^ 53"
    and e: "- 1074 \<le> e" "e \<le> 971"
    using assms unfolding doubles_def by blast
  have "\<bar>m\<bar> \<le> 2 ^ 53 - 1" using m by simp
  then have "(of_int \<bar>m\<bar> :: real) \<le> of_int (2 ^ 53 - 1)" by (simp only: of_int_le_iff)
  then have m': "\<bar>of_int m :: real\<bar> \<le> 2 ^ 53 - 1" by simp
  have "(2::real) powr of_int e \<le> 2 powr 971"
    using e by (intro powr_mono) simp_all
  then have e': "(2::real) powr of_int e \<le> 2 ^ 971" by simp
  have "\<bar>d\<bar> = \<bar>of_int m :: real\<bar> * 2 powr of_int e"
    by (simp add: d abs_mult)
  also have "\<dots> \<le> (2 ^ 53 - 1) * 2 ^ 971"
    using m' e' by (intro mult_mono) simp_all
  finally show ?thesis by (simp add: maxDouble_def)
qed

lemma toNumber_double: "d \<in> doubles \<Longrightarrow> toNumber d = Num d"
  using doubles_le_maxDouble[of d] by (simp add: toNumber_def fl_double abs_le_iff)


lemma toNumber_cases:
  "toNumber x = PosInfinity \<and> maxDouble < fl x \<or>
   toNumber x = NegInfinity \<and> fl x < - maxDouble \<or>
   toNumber x = Num (fl x) \<and> fl x \<in> doubles \<and> - maxDouble \<le> fl x \<and> fl x \<le> maxDouble"
proof -
  have "fl x \<in> doubles" if "\<not> maxDouble < fl x" "\<not> fl x < - maxDouble"
    using that by (intro fl_in_doubles) (simp add: abs_le_iff)
  then show ?thesis by (auto simp: toNumber_def)
qed

lemma maxDouble_pos: "0 < maxDouble"
  by (simp add: maxDouble_def)



subsection \<open>Route sampler: termination\<close>

lemma samplerStep_cases:
  "samplerStep M rc sl k st =
     (if jsLessEq (jsSub (nextPointDistance st) (accumulatedDistance st))
           (jsSub (sl ! currentSegmentIndex st) (distanceIntoSegment st))
      then st\<lparr>result := result st @
                [\<lparr>coord = calculateDestinationPoint M (rc ! currentSegmentIndex st)
                     (calculateInitialCompassBearing M (rc ! currentSegmentIndex st)
                        (rc ! (currentSegmentIndex st + 1)))
                     (jsAdd (distanceIntoSegment st)
                        (jsSub (nextPointDistance st) (accumulatedDistance st))),
                  bearing = calculateInitialCompassBearing M (rc ! currentSegmentIndex st)
                        (rc ! (currentSegmentIndex st + 1))\<rparr>],
              nextPointDistance := jsAdd (nextPointDistance st) k\<rparr>
      else st\<lparr>accumulatedDistance := jsAdd (accumulatedDistance st)
                 (jsSub (sl ! currentSegmentIndex st) (distanceIntoSegment st)),
               distanceIntoSegment := Num 0,
               currentSegmentIndex := currentSegmentIndex st + 1\<rparr>)"
  by (simp add: samplerStep_def Let_def)

lemma positiveNumber_add:
  assumes "positiveNumber v" "k \<in> doubles" "0 < k"
  shows "positiveNumber (jsAdd v (Num k))"
proof (cases v)
  case (Num x)
  then have x: "x \<in> doubles" "0 < x" using assms(1) by (simp_all add: positiveNumber_def)
  have "0 \<le> x + k" using x assms by simp
  then have "fl 0 \<le> fl (x + k)" by (rule fl_mono)
  moreover have "fl k \<le> fl (x + k)" using x by (intro fl_mono) simp
  then have "0 < fl (x + k)" using assms by (simp add: fl_double)
  ultimately show ?thesis
    using toNumber_cases[of "x + k"] maxDouble_pos
    by (auto simp: Num positiveNumber_def)
qed (use assms in \<open>simp_all add: positiveNumber_def\<close>)



subsection \<open>Route sampler: the waypoints emitted\<close>

lemma representable_toNumber [simp]: "representable (toNumber x)"
  using toNumber_cases[of x] by (auto simp: representable_def)

lemma representable_signedInfinity [simp]: "representable (signedInfinity b)"
  by (simp add: representable_def signedInfinity_def)

lemma representable_jsMul [simp]: "representable (jsMul a b)"
  by (cases a; cases b) (simp_all add: representable_def[of NaN] representable_def[of PosInfinity]
      representable_def[of NegInfinity])

lemma representable_jsAdd [simp]: "representable (jsAdd a b)"
  by (cases a; cases b) (simp_all add: representable_def[of NaN] representable_def[of PosInfinity]
      representable_def[of NegInfinity])

lemma representable_distanceN [simp]: "representable (distanceN M a b)"
  by (simp add: distanceN_def Let_def)




lemma accumulatedAt_0 [simp]: "accumulatedAt sl 0 = Num 0"
  by (simp add: accumulatedAt_def totalDistanceOf_def)

















lemma generateEvenlySpacedPoints_loop:
  "2 \<le> length rc \<Longrightarrow>
   generateEvenlySpacedPoints M rc s =
     samplerLoop M rc (segmentLengthsOf M rc) (jsDiv s (Num 1000))
       (totalDistanceOf (segmentLengthsOf M rc)) (samplerInit M rc (jsDiv s (Num 1000)))"
  by (simp add: generateEvenlySpacedPoints_def Let_def)



subsection \<open>Route sampler: a quarter of the equator\<close>

lemma toNumber_between:
  assumes "lo \<le> x" "x \<le> hi" "lo \<in> doubles" "hi \<in> doubles"
  shows "between lo hi (toNumber x)"
proof -
  have "fl lo \<le> fl x" "fl x \<le> fl hi" using assms(1,2) by (auto intro: fl_mono)
  then have b: "lo \<le> fl x" "fl x \<le> hi" using assms(3,4) by (simp_all add: fl_double)
  have "\<bar>lo\<bar> \<le> maxDouble" "\<bar>hi\<bar> \<le> maxDouble"
    using assms(3,4) by (auto intro: doubles_le_maxDouble)
  then have "\<not> maxDouble < fl x" "\<not> fl x < - maxDouble" using b by linarith+
  then show ?thesis
    using toNumber_cases[of x] b by (auto simp: between_def)
qed

lemma double_div_pow2:
  assumes "\<bar>m\<bar> < 2 ^ 53" "e \<le> 1074"
  shows "(of_int m / 2 ^ e :: real) \<in> doubles"
proof -
  have "(2::real) powr of_int (- int e) = 1 / 2 ^ e"
    by (simp add: powr_minus powr_realpow inverse_eq_divide)
  then have "(of_int m / 2 ^ e :: real) = of_int m * 2 powr of_int (- int e)" by simp
  moreover have "- 1074 \<le> - int e" "- int e \<le> 971" using assms(2) by simp_all
  ultimately show ?thesis unfolding doubles_def using assms(1) by blast
qed

lemma double_of_int: "\<bar>m\<bar> < 2 ^ 53 \<Longrightarrow> (of_int m :: real) \<in> doubles"
  using double_div_pow2[of m 0] by simp

lemma doubles_numerals:
  "(0::real) \<in> doubles" "(1::real) \<in> doubles" "(2::real) \<in> doubles" "(4::real) \<in> doubles"
  "(90::real) \<in> doubles" "(25484::real) \<in> doubles"
  "(1 / 64 :: real) \<in> doubles" "(1 / 32 :: real) \<in> doubles" "(45 / 32 :: real) \<in> doubles"
  "(45 / 16 :: real) \<in> doubles" "(45 / 64 :: real) \<in> doubles" "(1 / 2 :: real) \<in> doubles"
  "(1 / 4 :: real) \<in> doubles" "(3 / 4 :: real) \<in> doubles" "(6371 / 2 :: real) \<in> doubles"
  using double_of_int[of 0] double_of_int[of 1] double_of_int[of 2] double_of_int[of 4]
    double_of_int[of 90] double_of_int[of 25484]
    double_div_pow2[of 1 6] double_div_pow2[of 1 5] double_div_pow2[of 45 5]
    double_div_pow2[of 45 4] double_div_pow2[of 45 6] double_div_pow2[of 1 1]
    double_div_pow2[of 1 2] double_div_pow2[of 3 2] double_div_pow2[of 6371 1]
  by simp_all

lemma sin_ge_half:
  assumes "45 / 64 \<le> h" "h \<le> 45 / 32"
  shows "1 / 2 \<le> sin (h::real)"
proof -
  have p: "2 \<le> pi" "pi < 4" using pi_ge_two pi_less_4 by simp_all
  show ?thesis
  proof (cases "h \<le> pi / 2")
    case True
    have "sin (pi / 6) \<le> sin h"
      using assms p True by (intro sin_monotone_2pi_le) simp_all
    then show ?thesis by (simp add: sin_30)
  next
    case False
    have "sin (pi / 6) \<le> sin (pi - h)"
      using assms p False by (intro sin_monotone_2pi_le) simp_all
    then show ?thesis by (simp add: sin_30)
  qed
qed

lemma arctan_half_ge: "1 / 4 \<le> arctan (1 / 2)"
proof -
  have p: "2 \<le> pi" using pi_ge_two by simp
  have "cos (pi / 3) \<le> cos (1 / 4 :: real)"
    using p by (intro cos_monotone_0_pi_le) simp_all
  then have c: "1 / 2 \<le> cos (1 / 4 :: real)" by (simp add: cos_60)
  have s: "sin (1 / 4 :: real) \<le> 1 / 4" by (intro sin_x_le_x) simp
  have "tan (1 / 4 :: real) = sin (1 / 4) / cos (1 / 4)" by (simp add: tan_def)
  also have "\<dots> \<le> (1 / 4) / (1 / 2)"
    using c s by (intro frac_le) simp_all
  finally have "tan (1 / 4 :: real) \<le> 1 / 2" by simp
  then have "arctan (tan (1 / 4 :: real)) \<le> arctan (1 / 2)" by (simp only: arctan_le_iff)
  moreover have "arctan (tan (1 / 4 :: real)) = 1 / 4"
    using p by (intro arctan_tan) simp_all
  ultimately show ?thesis by simp
qed

lemma atan2_quadrant:
  assumes "1 / 2 \<le> p" "0 \<le> q" "q \<le> 1"
  shows "1 / 4 \<le> atan2 p q" "atan2 p q \<le> 2"
proof -
  have p2: "pi / 2 < 2" "2 \<le> pi" using pi_half_less_two pi_ge_two by simp_all
  show "1 / 4 \<le> atan2 p q"
  proof (cases "q = 0")
    case True
    then show ?thesis using assms p2 by (simp add: atan2_def)
  next
    case False
    then have q: "0 < q" using assms by simp
    have "1 / 2 \<le> p / q" using assms q by (simp add: field_simps)
    then have "arctan (1 / 2) \<le> arctan (p / q)" by (simp only: arctan_le_iff)
    then show ?thesis using arctan_half_ge q by (simp add: atan2_def)
  qed
  show "atan2 p q \<le> 2"
  proof (cases "q = 0")
    case True
    then show ?thesis using assms p2 by (simp add: atan2_def)
  next
    case False
    then have q: "0 < q" using assms by simp
    have "arctan (p / q) < pi / 2" by (rule arctan_ubound)
    then show ?thesis using p2 q by (simp add: atan2_def)
  qed
qed

lemmas crLib = correctlyRounded_def roundedUnary_def

lemma radiansPerDegree:
  "between (1 / 64) (1 / 32) (jsDiv (Num Math_PI) (Num 180))"
  using toNumber_between[of "1 / 64" "Math_PI / 180" "1 / 32"]
  by (simp add: Math_PI_def doubles_numerals)


lemma distanceN_quarter_equator:
  "between (6371 / 2) 25484 (distanceN correctlyRounded (Num 0, Num 0) (Num 0, Num 90))"
proof -
  obtain c where c: "jsDiv (Num Math_PI) (Num 180) = Num c" "1 / 64 \<le> c" "c \<le> 1 / 32"
    using radiansPerDegree unfolding between_def by blast
  have z: "toNumber 0 = Num 0" by (rule toNumber_double[OF doubles_numerals(1)])
  have o: "toNumber 1 = Num 1" by (rule toNumber_double[OF doubles_numerals(2)])
  have n: "toNumber 90 = Num 90" by (rule toNumber_double[OF doubles_numerals(5)])
  have r0: "toRadiansN (Num 0) = Num 0"
    unfolding toRadiansN_def c by (simp add: z)
  have "between (45 / 32) (45 / 16) (toNumber (90 * c))"
    using c by (intro toNumber_between) (simp_all add: doubles_numerals)
  then obtain dl where dl: "toRadiansN (Num 90) = Num dl" "45 / 32 \<le> dl" "dl \<le> 45 / 16"
    unfolding toRadiansN_def c between_def by auto
  have "between (45 / 64) (45 / 32) (toNumber (dl / 2))"
    using dl by (intro toNumber_between) (simp_all add: doubles_numerals)
  then obtain h where h: "jsDiv (Num dl) (Num 2) = Num h" "45 / 64 \<le> h" "h \<le> 45 / 32"
    unfolding between_def by auto
  have "between (1 / 2) 1 (toNumber (sin h))"
    using sin_ge_half[OF h(2,3)] by (intro toNumber_between) (simp_all add: doubles_numerals)
  then obtain S where S: "libSin correctlyRounded (Num h) = Num S" "S \<in> doubles"
      "1 / 2 \<le> S" "S \<le> 1"
    unfolding between_def by (auto simp: crLib)
  have "1 / 2 * (1 / 2) \<le> S * S" using S(3) by (intro mult_mono) simp_all
  moreover have "S * S \<le> 1 * 1" using S(3,4) by (intro mult_mono) simp_all
  ultimately have "between (1 / 4) 1 (toNumber (S * S))"
    by (intro toNumber_between) (simp_all add: doubles_numerals)
  then obtain a where a: "jsMul (Num S) (Num S) = Num a" "a \<in> doubles" "1 / 4 \<le> a" "a \<le> 1"
    unfolding between_def by auto
  have "1 / 2 \<le> sqrt a" using a(3) real_le_rsqrt[of "1 / 2" a] by (simp add: power2_eq_square)
  moreover have "sqrt a \<le> 1" using a(4) by simp
  ultimately have "between (1 / 2) 1 (toNumber (sqrt a))"
    by (intro toNumber_between) (simp_all add: doubles_numerals)
  then obtain p where p: "libSqrt correctlyRounded (Num a) = Num p" "1 / 2 \<le> p" "p \<le> 1"
    using a(3) unfolding between_def by (auto simp: crLib)
  have "between 0 (3 / 4) (toNumber (1 - a))"
    using a by (intro toNumber_between) (simp_all add: doubles_numerals)
  then obtain r where r: "jsSub (Num 1) (Num a) = Num r" "0 \<le> r" "r \<le> 3 / 4"
    unfolding between_def jsSub_def by auto
  have "sqrt r \<le> 1" using r(3) by simp
  then have "between 0 1 (toNumber (sqrt r))"
    using r(2) by (intro toNumber_between) (simp_all add: doubles_numerals)
  then obtain q where q: "libSqrt correctlyRounded (Num r) = Num q" "0 \<le> q" "q \<le> 1"
    using r(2) unfolding between_def by (auto simp: crLib)
  have "between (1 / 4) 2 (toNumber (atan2 p q))"
    using atan2_quadrant[OF p(2) q(2,3)]
    by (intro toNumber_between) (simp_all add: doubles_numerals)
  then obtain th where th: "libAtan2 correctlyRounded (Num p) (Num q) = Num th"
      "1 / 4 \<le> th" "th \<le> 2"
    unfolding between_def by (auto simp: crLib)
  have "between (1 / 2) 4 (toNumber (2 * th))"
    using th by (intro toNumber_between) (simp_all add: doubles_numerals)
  then obtain cc where cc: "jsMul (Num 2) (Num th) = Num cc" "1 / 2 \<le> cc" "cc \<le> 4"
    unfolding between_def by auto
  have d: "between (6371 / 2) 25484 (toNumber (6371 * cc))"
    using cc by (intro toNumber_between) (simp_all add: doubles_numerals)
  have s0: "libSin correctlyRounded (Num 0) = Num 0" by (simp add: crLib z)
  have c0: "libCos correctlyRounded (Num 0) = Num 1" by (simp add: crLib o)
  have m0: "jsMul (Num 0) (Num 0) = Num 0" by (simp add: z)
  have m1: "jsMul (Num 1) (Num 1) = Num 1" by (simp add: o)
  have mS: "jsMul (Num 1) (Num S) = Num S" by (simp add: toNumber_double[OF S(2)])
  have aa: "jsAdd (Num 0) (Num a) = Num a" by (simp add: toNumber_double[OF a(2)])
  have s90: "jsSub (Num 90) (Num 0) = Num 90" by (simp add: jsSub_def n)
  have s00: "jsSub (Num 0) (Num 0) = Num 0" by (simp add: jsSub_def z)
  have d00: "jsDiv (Num 0) (Num 2) = Num 0" by (simp add: z)
  have "distanceN correctlyRounded (Num 0, Num 0) (Num 0, Num 90) = toNumber (6371 * cc)"
    unfolding distanceN_def Let_def fst_conv snd_conv s90 s00 r0 dl(1) h(1) d00 s0 c0 m0 m1
      S(1) mS a(1) aa p(1) r(1) q(1) th(1) cc(1)
    by simp
  then show ?thesis using d by simp
qed

lemma samplerLoop_diverges:
  assumes step: "\<And>st. Q st \<Longrightarrow> samplerContinues rc T st \<and> Q (samplerStep M rc sl k st)"
  shows "Q st \<Longrightarrow> samplerLoop M rc sl k T st = None"
proof -
  have "samplerLoop M' rc' sl' k' T' st' = Some ws \<Longrightarrow>
        M' = M \<and> rc' = rc \<and> sl' = sl \<and> k' = k \<and> T' = T \<and> Q st' \<longrightarrow> False"
    for M' rc' sl' k' T' st' ws
  proof (rule samplerLoop.raw_induct[where P = "\<lambda>M' rc' sl' k' T' st' ws.
        M' = M \<and> rc' = rc \<and> sl' = sl \<and> k' = k \<and> T' = T \<and> Q st' \<longrightarrow> False"])
    fix loop M' rc' sl' k' T' st' ws
    assume ih: "\<And>M' rc' sl' k' T' st' ws. loop M' rc' sl' k' T' st' = Some ws \<Longrightarrow>
        M' = M \<and> rc' = rc \<and> sl' = sl \<and> k' = k \<and> T' = T \<and> Q st' \<longrightarrow> False"
      and eq: "(if samplerContinues rc' T' st'
         then loop M' rc' sl' k' T' (samplerStep M' rc' sl' k' st')
         else Some (result st')) = Some ws"
    show "M' = M \<and> rc' = rc \<and> sl' = sl \<and> k' = k \<and> T' = T \<and> Q st' \<longrightarrow> False"
    proof
      assume a: "M' = M \<and> rc' = rc \<and> sl' = sl \<and> k' = k \<and> T' = T \<and> Q st'"
      then have c: "samplerContinues rc T st'" and q: "Q (samplerStep M rc sl k st')"
        using step by blast+
      have "loop M rc sl k T (samplerStep M rc sl k st') = Some ws"
        using eq a c by simp
      from ih[OF this] q show False by simp
    qed
  qed
  then show "Q st \<Longrightarrow> samplerLoop M rc sl k T st = None"
    by (cases "samplerLoop M rc sl k T st") auto
qed





lemma maxDouble_ge_one: "1 \<le> maxDouble"
  by (simp add: maxDouble_def)

lemma quarterEquator_total:
  "\<exists>d. segmentLengthsOf correctlyRounded quarterEquator = [Num d] \<and>
       totalDistanceOf (segmentLengthsOf correctlyRounded quarterEquator) = Num d \<and>
       d \<in> doubles \<and> 6371 / 2 \<le> d \<and> d \<le> 25484"
proof -
  obtain d where d: "distanceN correctlyRounded (Num 0, Num 0) (Num 0, Num 90) = Num d"
      "d \<in> doubles" "6371 / 2 \<le> d" "d \<le> 25484"
    using distanceN_quarter_equator unfolding between_def by blast
  have sl: "segmentLengthsOf correctlyRounded quarterEquator = [Num d]"
    by (simp add: segmentLengthsOf_def quarterEquator_def d(1))
  have "totalDistanceOf [Num d] = Num d"
    by (simp add: totalDistanceOf_def toNumber_double[OF d(2)])
  then show ?thesis using sl d by simp
qed





text \<open>
  A spacing of \<open>2\<^sup>-\<^sup>6\<^sup>0\<close> km: the targets grow up to 1 km at most, where the addition
  absorbs the spacing.
\<close>

lemma absorbed_at_one:
  assumes "x \<le> 1"
  shows "fl (x + 2 powr (- 60)) \<le> 1"
proof -
  have "fl (x + 2 powr (- 60)) \<le> fl (1 + 2 powr (- 60))"
    using assms by (intro fl_mono) simp
  also have "fl (1 + 2 powr (- 60)) = 1"
    using fl_eval[of 0 "1 + 2 powr (- 60)"]
    by (simp add: roundTiesToEven_def Let_def powr_neg_numeral)
  finally show ?thesis .
qed

lemma spacing_tiny: "jsDiv (Num (1000 * 2 powr (- 60))) (Num 1000) = Num (2 powr (- 60))"
proof -
  have "(2 powr (- 60) :: real) \<in> doubles"
    using double_div_pow2[of 1 60] by (simp add: powr_neg_numeral)
  then show ?thesis by (simp add: toNumber_double)
qed

lemma sampler_stuck_at_one:
  "generateEvenlySpacedPoints correctlyRounded quarterEquator (Num (1000 * 2 powr (- 60))) = None"
proof -
  obtain d where sl: "segmentLengthsOf correctlyRounded quarterEquator = [Num d]"
    and T: "totalDistanceOf (segmentLengthsOf correctlyRounded quarterEquator) = Num d"
    and d: "d \<in> doubles" "6371 / 2 \<le> d"
    using quarterEquator_total by blast
  define k :: real where "k = 2 powr (- 60)"
  have k: "k \<in> doubles" "0 < k" "k \<le> 1"
    using double_div_pow2[of 1 60] by (simp_all add: k_def powr_neg_numeral)
  define Q where "Q = (\<lambda>st :: sampler. (\<exists>x. nextPointDistance st = Num x \<and> x \<in> doubles \<and> 0 < x \<and> x \<le> 1) \<and>
      accumulatedDistance st = Num 0 \<and>
      distanceIntoSegment st = Num 0 \<and> currentSegmentIndex st = 0)"
  have step: "samplerContinues quarterEquator (Num d) st \<and>
      Q (samplerStep correctlyRounded quarterEquator [Num d] (Num k) st)" if "Q st" for st
  proof -
    have r: "accumulatedDistance st = Num 0" "distanceIntoSegment st = Num 0"
        "currentSegmentIndex st = 0"
      and ex: "\<exists>x. nextPointDistance st = Num x \<and> x \<in> doubles \<and> 0 < x \<and> x \<le> 1"
      using that unfolding Q_def by simp_all
    from ex obtain x where x: "nextPointDistance st = Num x" "x \<in> doubles" "0 < x" "x \<le> 1"
      by blast
    have c: "samplerContinues quarterEquator (Num d) st"
      using x d(2) r by (simp add: samplerContinues_def quarterEquator_def)
    have emit: "jsLessEq (jsSub (nextPointDistance st) (accumulatedDistance st))
        (jsSub ([Num d] ! currentSegmentIndex st) (distanceIntoSegment st))"
      using x d(2) by (simp add: r x(1) jsSub_def toNumber_double[OF d(1)] toNumber_double[OF x(2)])
    have "fl (x + k) \<le> 1" using absorbed_at_one[OF x(4)] by (simp add: k_def)
    moreover have "positiveNumber (jsAdd (Num x) (Num k))"
      using positiveNumber_add[OF _ k(1,2), of "Num x"] x by (simp add: positiveNumber_def)
    ultimately have "\<exists>y. jsAdd (Num x) (Num k) = Num y \<and> y \<in> doubles \<and> 0 < y \<and> y \<le> 1"
      using toNumber_cases[of "x + k"] maxDouble_ge_one
      by (auto simp: positiveNumber_def)
    then have "Q (samplerStep correctlyRounded quarterEquator [Num d] (Num k) st)"
      using emit r by (simp add: samplerStep_cases Q_def x(1))
    then show ?thesis using c by simp
  qed
  have "Q (samplerInit correctlyRounded quarterEquator (Num k))"
    using k by (simp add: Q_def samplerInit_def)
  note stuck = samplerLoop_diverges[of Q, OF step this]
  have "2 \<le> length quarterEquator" by (simp add: quarterEquator_def)
  from generateEvenlySpacedPoints_loop[OF this,
      of correctlyRounded "Num (1000 * 2 powr (- 60))"]
  show ?thesis
    unfolding spacing_tiny sl T[unfolded sl] using stuck by (simp only: k_def)
qed

subsection \<open>Bounds of \<open>\<pi>\<close>\<close>

lemma arctan_bounds:
  assumes "0 \<le> x" "x \<le> 1"
  shows "arctanSum x (2 * n) \<le> arctan x" "arctan x \<le> arctanSum x (2 * n + 1)"
proof -
  define a where "a = (\<lambda>i. 1 / real (i * 2 + 1) * x ^ (i * 2 + 1))"
  have x: "\<bar>x\<bar> \<le> 1" using assms by simp
  have z: "a \<longlonglongrightarrow> 0" unfolding a_def by (rule zeroseq_arctan_series[OF x])
  have p: "0 \<le> a i" for i unfolding a_def using assms by simp
  have m: "a (Suc i) \<le> a i" for i
  proof -
    have "x ^ (Suc i * 2 + 1) \<le> x ^ (i * 2 + 1)"
      using assms by (intro power_decreasing) simp_all
    moreover have "1 / real (Suc i * 2 + 1) \<le> 1 / real (i * 2 + 1)"
      by (intro divide_left_mono) simp_all
    ultimately show ?thesis
      unfolding a_def using assms by (intro mult_mono) simp_all
  qed
  have s: "arctan x = (\<Sum>i. (- 1) ^ i * a i)"
    unfolding a_def by (rule arctan_series[OF x])
  have e: "arctanSum x k = (\<Sum>i<k. (- 1) ^ i * a i)" for k
    by (simp add: arctanSum_def a_def)
  show "arctanSum x (2 * n) \<le> arctan x"
    unfolding s e by (rule summable_Leibniz'(2)[OF z p m])
  show "arctan x \<le> arctanSum x (2 * n + 1)"
    unfolding s e by (rule summable_Leibniz'(4)[OF z p m])
qed

lemma arctanSum_Suc:
  "arctanSum x (Suc n) = arctanSum x n + (- 1) ^ n * (1 / real (n * 2 + 1) * x ^ (n * 2 + 1))"
  by (simp add: arctanSum_def)

lemma arctanSum_0: "arctanSum x 0 = 0"
  by (simp add: arctanSum_def)

lemma pi_machin_bounds:
  "4 * (4 * arctanSum (1 / 5) (2 * n) - arctanSum (1 / 239) (2 * m + 1)) \<le> pi"
  "pi \<le> 4 * (4 * arctanSum (1 / 5) (2 * n' + 1) - arctanSum (1 / 239) (2 * m'))"
proof -
  have a: "arctanSum (1 / 5) (2 * n) \<le> arctan (1 / 5)"
    "arctan (1 / 5) \<le> arctanSum (1 / 5) (2 * n' + 1)"
    by (rule arctan_bounds; simp)+
  have b: "arctanSum (1 / 239) (2 * m') \<le> arctan (1 / 239)"
    "arctan (1 / 239) \<le> arctanSum (1 / 239) (2 * m + 1)"
    by (rule arctan_bounds; simp)+
  have p: "pi = 4 * (4 * arctan (1 / 5) - arctan (1 / 239))" using machin by simp
  show "4 * (4 * arctanSum (1 / 5) (2 * n) - arctanSum (1 / 239) (2 * m + 1)) \<le> pi"
    unfolding p using a(1) b(2) by (intro mult_left_mono diff_mono) simp_all
  show "pi \<le> 4 * (4 * arctanSum (1 / 5) (2 * n' + 1) - arctanSum (1 / 239) (2 * m'))"
    unfolding p using a(2) b(1) by (intro mult_left_mono diff_mono) simp_all
qed

lemma pi_tight:
  "(7074237752028440 - 1 / 2) / 2 ^ 51 < pi" "pi < (7074237752028440 + 1 / 2) / 2 ^ 51"
proof -
  have lo: "4 * (4 * arctanSum (1 / 5) (2 * 7) - arctanSum (1 / 239) (2 * 2 + 1)) \<le> pi"
    by (rule pi_machin_bounds(1))
  have hi: "pi \<le> 4 * (4 * arctanSum (1 / 5) (2 * 7 + 1) - arctanSum (1 / 239) (2 * 2))"
    by (rule pi_machin_bounds(2))
  have e5a: "arctanSum (1 / 5) (2 * 7) = arctanSum (1 / 5) 14" by simp
  have e5b: "arctanSum (1 / 5) (2 * 7 + 1) = arctanSum (1 / 5) 15" by simp
  have e9a: "arctanSum (1 / 239) (2 * 2 + 1) = arctanSum (1 / 239) 5" by simp
  have e9b: "arctanSum (1 / 239) (2 * 2) = arctanSum (1 / 239) 4" by simp
  have v: "(7074237752028440 - 1 / 2) / 2 ^ 51 <
      4 * (4 * arctanSum (1 / 5) 14 - arctanSum (1 / 239) 5)"
    "4 * (4 * arctanSum (1 / 5) 15 - arctanSum (1 / 239) 4) <
      (7074237752028440 + 1 / 2) / 2 ^ 51"
    by (simp_all add: arctanSum_def eval_nat_numeral)
  show "(7074237752028440 - 1 / 2) / 2 ^ 51 < pi"
    using lo v(1) unfolding e5a e9a by (rule less_le_trans[rotated])
  show "pi < (7074237752028440 + 1 / 2) / 2 ^ 51"
    using hi v(2) unfolding e5b e9b by (rule le_less_trans)
qed


subsection \<open>Route sampler: the claims\<close>













lemma Math_PI_near: "Math_PI - 1 / 2 ^ 52 < pi" "pi < Math_PI + 1 / 2 ^ 52"
proof -
  have "Math_PI - 1 / 2 ^ 52 = (7074237752028440 - 1 / 2) / 2 ^ 51"
    "Math_PI + 1 / 2 ^ 52 = (7074237752028440 + 1 / 2) / 2 ^ 51"
    by (simp_all add: Math_PI_def)
  then show "Math_PI - 1 / 2 ^ 52 < pi" "pi < Math_PI + 1 / 2 ^ 52"
    using pi_tight by simp_all
qed












subsection \<open>Image selector\<close>

lemma selectLoop_result:
  "selectLoop lat lon heading imgs (b, bs) = (b', bs') \<Longrightarrow>
     ((b', bs') = (b, bs) \<and>
      (\<forall>x \<in> set imgs. \<forall>s'. scoreOf lat lon heading x = Some s' \<longrightarrow> \<not> belowBest s' bs)) \<or>
     (\<exists>c s. b' = Some c \<and> bs' = Some s \<and> belowBest s bs \<and>
        earliestBest lat lon heading imgs c s)"
proof (induction imgs arbitrary: b bs)
  case Nil
  then show ?case by simp
next
  case (Cons x xs)
  show ?case
  proof (cases "scoreOf lat lon heading x")
    case None
    then have "selectLoop lat lon heading xs (b, bs) = (b', bs')"
      using Cons.prems by (cases "examineImage lat lon heading x") (simp_all add: scoreOf_def)
    from Cons.IH[OF this] show ?thesis
    proof
      assume "(b', bs') = (b, bs) \<and>
        (\<forall>x \<in> set xs. \<forall>s'. scoreOf lat lon heading x = Some s' \<longrightarrow> \<not> belowBest s' bs)"
      then show ?thesis using None by auto
    next
      assume "\<exists>c s. b' = Some c \<and> bs' = Some s \<and> belowBest s bs \<and>
        earliestBest lat lon heading xs c s"
      then obtain c s before after where h: "b' = Some c" "bs' = Some s" "belowBest s bs"
        "xs = before @ c # after" "scoreOf lat lon heading c = Some s"
        "\<forall>x \<in> set before. \<forall>s'. scoreOf lat lon heading x = Some s' \<longrightarrow> s < s'"
        "\<forall>x \<in> set after. \<forall>s'. scoreOf lat lon heading x = Some s' \<longrightarrow> s \<le> s'"
        unfolding earliestBest_def by blast
      have "earliestBest lat lon heading (x # xs) c s"
        unfolding earliestBest_def
        using h None by (intro exI[of _ "x # before"] exI[of _ after]) auto
      then show ?thesis using h by blast
    qed
  next
    case (Some sx)
    then have ex: "examineImage lat lon heading x = Scored sx"
      by (auto simp: scoreOf_def split: verdict.splits)
    show ?thesis
    proof (cases "belowBest sx bs")
      case True
      then have "selectLoop lat lon heading xs (Some x, Some sx) = (b', bs')"
        using Cons.prems ex by simp
      from Cons.IH[OF this] show ?thesis
      proof
        assume a: "(b', bs') = (Some x, Some sx) \<and>
          (\<forall>y \<in> set xs. \<forall>s'. scoreOf lat lon heading y = Some s' \<longrightarrow> \<not> belowBest s' (Some sx))"
        have "earliestBest lat lon heading (x # xs) x sx"
          unfolding earliestBest_def
          using a Some by (intro exI[of _ "[]"] exI[of _ xs]) (auto simp: belowBest_def)
        then show ?thesis using a True by blast
      next
        assume "\<exists>c s. b' = Some c \<and> bs' = Some s \<and> belowBest s (Some sx) \<and>
          earliestBest lat lon heading xs c s"
        then obtain c s before after where h: "b' = Some c" "bs' = Some s" "s < sx"
          "xs = before @ c # after" "scoreOf lat lon heading c = Some s"
          "\<forall>x \<in> set before. \<forall>s'. scoreOf lat lon heading x = Some s' \<longrightarrow> s < s'"
          "\<forall>x \<in> set after. \<forall>s'. scoreOf lat lon heading x = Some s' \<longrightarrow> s \<le> s'"
          unfolding earliestBest_def belowBest_def by auto
        have "earliestBest lat lon heading (x # xs) c s"
          unfolding earliestBest_def
          using h Some by (intro exI[of _ "x # before"] exI[of _ after]) auto
        moreover have "belowBest s bs"
          using True h(3) by (auto simp: belowBest_def split: option.splits)
        ultimately show ?thesis using h by blast
      qed
    next
      case False
      then obtain s0 where s0: "bs = Some s0" "s0 \<le> sx"
        by (auto simp: belowBest_def split: option.splits)
      have "selectLoop lat lon heading xs (b, bs) = (b', bs')"
        using Cons.prems ex False by simp
      from Cons.IH[OF this] show ?thesis
      proof
        assume "(b', bs') = (b, bs) \<and>
          (\<forall>x \<in> set xs. \<forall>s'. scoreOf lat lon heading x = Some s' \<longrightarrow> \<not> belowBest s' bs)"
        then show ?thesis using Some False by auto
      next
        assume "\<exists>c s. b' = Some c \<and> bs' = Some s \<and> belowBest s bs \<and>
          earliestBest lat lon heading xs c s"
        then obtain c s before after where h: "b' = Some c" "bs' = Some s" "belowBest s bs"
          "xs = before @ c # after" "scoreOf lat lon heading c = Some s"
          "\<forall>x \<in> set before. \<forall>s'. scoreOf lat lon heading x = Some s' \<longrightarrow> s < s'"
          "\<forall>x \<in> set after. \<forall>s'. scoreOf lat lon heading x = Some s' \<longrightarrow> s \<le> s'"
          unfolding earliestBest_def by blast
        have "s < sx" using h(3) s0 by (simp add: belowBest_def)
        then have "earliestBest lat lon heading (x # xs) c s"
          unfolding earliestBest_def
          using h Some by (intro exI[of _ "x # before"] exI[of _ after]) auto
        then show ?thesis using h by blast
      qed
    qed
  qed
qed

lemma scoreHeading_alt:
  "scoreHeading heading img d =
     (case computed_compass_angle img of
        None \<Rightarrow> SkippedNoCompassAngle
      | Some angle \<Rightarrow>
          if angle = 0 then SkippedNoCompassAngle
          else if headingDiff heading angle > 45 then SkippedHeading
          else Scored (headingDiff heading angle * 3 + d * 10000))"
  by (simp add: scoreHeading_def headingDiff_def Let_def split: option.splits)

lemma scoreHeading_Scored:
  "scoreHeading heading img d = Scored s \<longleftrightarrow>
     (\<exists>angle. computed_compass_angle img = Some angle \<and> angle \<noteq> 0 \<and>
        headingDiff heading angle \<le> 45 \<and> s = headingDiff heading angle * 3 + d * 10000)"
  by (auto simp: scoreHeading_alt split: option.splits)

lemma scoreOf_formula:
  "scoreOf lat lon heading img = Some s \<Longrightarrow>
     \<exists>angle. computed_compass_angle img = Some angle \<and>
       s = headingDiff heading angle * 3 + planarDistance lat lon img * 10000"
proof -
  assume a: "scoreOf lat lon heading img = Some s"
  then have e: "examineImage lat lon heading img = Scored s"
    by (auto simp: scoreOf_def split: verdict.splits)
  show ?thesis
  proof (cases "geometry_coordinates img")
    case None
    then have "scoreHeading heading img 0.0001 = Scored s"
      using e by (auto simp: examineImage_def split: if_splits)
    then show ?thesis
      using None by (auto simp: scoreHeading_Scored planarDistance_def)
  next
    case (Some p)
    obtain imgLon imgLat where p: "p = (imgLon, imgLat)" by (cases p)
    have "scoreHeading heading img (sqrt ((imgLat - lat)\<^sup>2 + (imgLon - lon)\<^sup>2)) = Scored s"
      using e Some p by (auto simp: examineImage_def Let_def split: if_splits)
    then show ?thesis
      using Some p by (auto simp: scoreHeading_Scored planarDistance_def)
  qed
qed

lemma selectLoop_initial:
  "selectLoop lat lon heading imgs (None, None) = (b', bs') \<Longrightarrow>
     (b' = None \<and> (\<forall>x \<in> set imgs. scoreOf lat lon heading x = None)) \<or>
     (\<exists>c s. b' = Some c \<and> earliestBest lat lon heading imgs c s)"
proof -
  assume "selectLoop lat lon heading imgs (None, None) = (b', bs')"
  from selectLoop_result[OF this] show ?thesis
    by (auto simp: belowBest_def)
qed

lemma earliestBest_scored:
  "earliestBest lat lon heading imgs c s \<Longrightarrow> c \<in> set imgs \<and> scoreOf lat lon heading c = Some s"
  by (auto simp: earliestBest_def)

lemma getMapillaryImage_Body:
  "getMapillaryImage (lat, lon) heading (Body (Some imgs)) =
     map_option toMapillaryImage (fst (selectLoop lat lon heading imgs (None, None)))"
  by (cases imgs) (auto simp: getMapillaryImage_def lookupBody_def split: option.splits)

lemma planarDistance_examine:
  "examineImage lat lon heading img =
     (if is_pano img \<or> thumb_2048_url img = None \<or> thumb_2048_url img = Some []
      then SkippedPanoOrNoThumb
      else if planarDistance lat lon img > 0.0002 then SkippedTooFar
      else scoreHeading heading img (planarDistance lat lon img))"
  by (auto simp: examineImage_def planarDistance_def Let_def split: option.splits)

lemma scoreOf_survivorScore:
  assumes "computed_compass_angle img \<noteq> Some 0"
  shows "scoreOf lat lon heading img = survivorScore lat lon heading img"
  using assms
  by (auto simp: scoreOf_def survivorScore_def planarDistance_examine scoreHeading_alt
      split: option.splits)

text \<open>
  Apart from the compass angle 0, the selector does what the specification says: on
  candidates none of which reports the angle 0, it returns none exactly when none
  survives, and otherwise the record of the earliest survivor of minimum score.
\<close>

lemma selector_refines_specification:
  assumes "\<forall>img \<in> set imgs. computed_compass_angle img \<noteq> Some 0"
  shows "selectsMinimum lat lon heading imgs
           (getMapillaryImage (lat, lon) heading (Body (Some imgs)))"
proof -
  obtain b' bs' where sel: "selectLoop lat lon heading imgs (None, None) = (b', bs')"
    by (cases "selectLoop lat lon heading imgs (None, None)")
  have g: "getMapillaryImage (lat, lon) heading (Body (Some imgs)) = map_option toMapillaryImage b'"
    by (simp add: getMapillaryImage_Body sel)
  have eq: "scoreOf lat lon heading x = survivorScore lat lon heading x" if "x \<in> set imgs" for x
    using assms that by (intro scoreOf_survivorScore) simp
  from selectLoop_initial[OF sel] show ?thesis
  proof
    assume "b' = None \<and> (\<forall>x \<in> set imgs. scoreOf lat lon heading x = None)"
    then show ?thesis unfolding g using eq by (simp add: selectsMinimum_def)
  next
    assume "\<exists>c s. b' = Some c \<and> earliestBest lat lon heading imgs c s"
    then obtain c s before after where c: "b' = Some c" "imgs = before @ c # after"
      "scoreOf lat lon heading c = Some s"
      "\<forall>x \<in> set before. \<forall>s'. scoreOf lat lon heading x = Some s' \<longrightarrow> s < s'"
      "\<forall>x \<in> set after. \<forall>s'. scoreOf lat lon heading x = Some s' \<longrightarrow> s \<le> s'"
      unfolding earliestBest_def by blast
    have "survivorScore lat lon heading c = Some s"
      using c(2,3) eq[of c] by simp
    moreover have "\<forall>x \<in> set before. \<forall>s'. survivorScore lat lon heading x = Some s' \<longrightarrow> s < s'"
      using c(2,4) eq by simp
    moreover have "\<forall>x \<in> set after. \<forall>s'. survivorScore lat lon heading x = Some s' \<longrightarrow> s \<le> s'"
      using c(2,5) eq by simp
    ultimately show ?thesis
      unfolding g c(1) selectsMinimum_def using c(2)
      by (auto simp: toMapillaryImage_def)
  qed
qed

lemma facing_scores:
  "survivorScore 0 0 0 northFacing = Some 0" "survivorScore 0 0 0 facingTen = Some 30"
  by (simp_all add: survivorScore_def northFacing_def facingTen_def planarDistance_def
      headingDiff_def)

lemma facing_selected:
  "getMapillaryImage (0, 0) 0 (Body (Some [northFacing, facingTen])) =
     Some \<lparr>imageId = ''T'', thumbUrl = Some ''t.jpg'', computedCompassAngle = Some 10,
            geometry = Some (0, 0)\<rparr>"
  by (simp add: getMapillaryImage_def lookupBody_def examineImage_def scoreHeading_def
      northFacing_def facingTen_def belowBest_def toMapillaryImage_def)

text \<open>
  On the candidates facing 0 and 10 degrees, for the desired heading 0, the result the
  specification asks for is the record of the first, and the result of the selector is
  not one the specification allows.
\<close>

lemma selector_result_not_minimum:
  "selectsMinimum 0 0 0 [northFacing, facingTen]
     (Some \<lparr>imageId = ''N'', thumbUrl = Some ''n.jpg'', computedCompassAngle = Some 0,
             geometry = Some (0, 0)\<rparr>)"
  "\<not> selectsMinimum 0 0 0 [northFacing, facingTen]
       (getMapillaryImage (0, 0) 0 (Body (Some [northFacing, facingTen])))"
proof -
  note n = facing_scores(1) and t = facing_scores(2)
  have ne: "northFacing \<noteq> facingTen" by (simp add: northFacing_def facingTen_def)
  show "selectsMinimum 0 0 0 [northFacing, facingTen]
     (Some \<lparr>imageId = ''N'', thumbUrl = Some ''n.jpg'', computedCompassAngle = Some 0,
             geometry = Some (0, 0)\<rparr>)"
    unfolding selectsMinimum_def option.case
    by (intro exI[of _ "[]"] exI[of _ northFacing] exI[of _ "[facingTen]"] exI[of _ 0])
       (simp add: n t, simp add: northFacing_def)
  have "\<not> selectsMinimum 0 0 0 [northFacing, facingTen]
       (Some \<lparr>imageId = ''T'', thumbUrl = Some ''t.jpg'', computedCompassAngle = Some 10,
            geometry = Some (0, 0)\<rparr>)"
  proof
    assume "selectsMinimum 0 0 0 [northFacing, facingTen]
       (Some \<lparr>imageId = ''T'', thumbUrl = Some ''t.jpg'', computedCompassAngle = Some 10,
            geometry = Some (0, 0)\<rparr>)"
    then obtain before c after s where h: "[northFacing, facingTen] = before @ c # after"
      "survivorScore 0 0 0 c = Some s"
      "\<forall>x \<in> set before. \<forall>s'. survivorScore 0 0 0 x = Some s' \<longrightarrow> s < s'"
      "\<forall>x \<in> set after. \<forall>s'. survivorScore 0 0 0 x = Some s' \<longrightarrow> s \<le> s'"
      "image_id c = ''T''"
      unfolding selectsMinimum_def by auto
    have "c \<in> set [northFacing, facingTen]" unfolding h(1) by simp
    then have c: "c = facingTen" using h(5) by (auto simp: northFacing_def)
    have "before = [northFacing] \<and> after = []"
      using h(1) ne unfolding c by (cases before; cases "tl before") auto
    then show False using h(2,3) n t unfolding c by simp
  qed
  then show "\<not> selectsMinimum 0 0 0 [northFacing, facingTen]
       (getMapillaryImage (0, 0) 0 (Body (Some [northFacing, facingTen])))"
    unfolding facing_selected .
qed

text \<open>
  Claim C2 at two candidates on the target, for the desired heading 0: the first reports
  the compass angle 0 and the second the angle 10. Both survive the filtering of the
  specification, with the scores 0 and 30, so the candidate of minimum score is the
  first. The selector skips the first at \<^verbatim>\<open>!image.computed_compass_angle\<close> and returns the
  record of the second.
\<close>

theorem selector_skips_minimum_score:
  "survivorScore 0 0 0 northFacing = Some 0 \<and>
   survivorScore 0 0 0 facingTen = Some 30 \<and>
   examineImage 0 0 0 northFacing = SkippedNoCompassAngle \<and>
   getMapillaryImage (0, 0) 0 (Body (Some [northFacing, facingTen])) =
     Some \<lparr>imageId = ''T'', thumbUrl = Some ''t.jpg'', computedCompassAngle = Some 10,
            geometry = Some (0, 0)\<rparr>"
  using facing_scores facing_selected
  by (simp add: examineImage_def scoreHeading_def northFacing_def)

lemma sample_scores:
  "examineImage 0 0 100 sampleA = Scored 31.5"
  "examineImage 0 0 100 sampleB = Scored 16.9"
  "examineImage 0 0 100 sampleB' = Scored 16.9"
  by (simp_all add: examineImage_def scoreHeading_def sampleA_def sampleB_def sampleB'_def Let_def)

lemma compass_filter:
  "scoreHeading heading img d = SkippedNoCompassAngle \<longleftrightarrow>
     computed_compass_angle img = None \<or> computed_compass_angle img = Some 0"
  by (auto simp: scoreHeading_alt split: option.splits)

text \<open>
  Claim C8 at an image that reports the compass angle 0: it sits on the target and faces
  the desired heading, and the check \<^verbatim>\<open>!image.computed_compass_angle\<close> skips it, as
  \<open>compass_filter\<close> says in general.
\<close>

theorem compass_angle_zero_rejected:
  "computed_compass_angle northFacing = Some 0 \<and>
   examineImage 0 0 0 northFacing = SkippedNoCompassAngle \<and>
   getMapillaryImage (0, 0) 0 (Body (Some [northFacing])) = None"
  by (simp add: northFacing_def examineImage_def scoreHeading_def getMapillaryImage_def
      lookupBody_def)

text \<open>
  Claim C10. An image without coordinates is never skipped by the distance check; its
  planar distance is the default 0.0001; if it passes the other checks its score is
  \<open>headingDiff * 3 + 0.0001 * 10000\<close>, and alone in the answer it is the image returned.
\<close>

theorem missing_geometry_default_distance:
  "geometry_coordinates img = None \<longrightarrow>
     examineImage lat lon heading img \<noteq> SkippedTooFar \<and>
     planarDistance lat lon img = 0.0001 \<and>
     (\<not> is_pano img \<and> thumb_2048_url img \<noteq> None \<and> thumb_2048_url img \<noteq> Some [] \<and>
      computed_compass_angle img = Some angle \<and> angle \<noteq> 0 \<and> headingDiff heading angle \<le> 45 \<longrightarrow>
        examineImage lat lon heading img = Scored (headingDiff heading angle * 3 + 0.0001 * 10000) \<and>
        getMapillaryImage (lat, lon) heading (Body (Some [img])) = Some (toMapillaryImage img))"
proof (intro impI conjI)
  assume g: "geometry_coordinates img = None"
  show "examineImage lat lon heading img \<noteq> SkippedTooFar"
    using g by (auto simp: examineImage_def scoreHeading_alt split: option.splits)
  show "planarDistance lat lon img = 0.0001"
    using g by (simp add: planarDistance_def)
  assume a: "\<not> is_pano img \<and> thumb_2048_url img \<noteq> None \<and> thumb_2048_url img \<noteq> Some [] \<and>
      computed_compass_angle img = Some angle \<and> angle \<noteq> 0 \<and> headingDiff heading angle \<le> 45"
  show e: "examineImage lat lon heading img = Scored (headingDiff heading angle * 3 + 0.0001 * 10000)"
    using g a by (simp add: examineImage_def scoreHeading_alt)
  show "getMapillaryImage (lat, lon) heading (Body (Some [img])) = Some (toMapillaryImage img)"
    by (simp add: getMapillaryImage_def lookupBody_def e belowBest_def)
qed

text \<open>
  An image without coordinates, aligned with the heading, scores 1 and is returned, also
  ahead of images that have coordinates.
\<close>

lemma noGeometry_score: "examineImage 0 0 100 noGeometry = Scored 1"
  by (simp add: examineImage_def scoreHeading_def noGeometry_def)

theorem missing_geometry_default_distance_witness:
  "geometry_coordinates noGeometry = None \<and>
   examineImage 0 0 100 noGeometry = Scored 1 \<and>
   getMapillaryImage (0, 0) 100 (Body (Some [noGeometry])) = Some (toMapillaryImage noGeometry) \<and>
   getMapillaryImage (0, 0) 100 (Body (Some [sampleA, noGeometry, sampleB]))
     = Some (toMapillaryImage noGeometry)"
proof -
  have "getMapillaryImage (0, 0) 100 (Body (Some [sampleA, noGeometry, sampleB]))
     = Some (toMapillaryImage noGeometry)"
    by (simp add: getMapillaryImage_def lookupBody_def sample_scores belowBest_def
        noGeometry_score)
  then show ?thesis
    using missing_geometry_default_distance[of noGeometry 0 0 100 100]
    by (simp add: noGeometry_def headingDiff_def)
qed

subsection \<open>Orchestrator: deduplication and failed lookups\<close>

lemma toRadians_diff: "toRadians (x - y) = toRadians x - toRadians y"
  by (simp add: toRadians_def left_diff_distrib)

lemma toRadians_numerals:
  "toRadians 0 = 0" "toRadians 90 = pi / 2" "toRadians (- 90) = - (pi / 2)"
  "toRadians 180 = pi" "toRadians 360 = 2 * pi"
  by (simp_all add: toRadians_def)

lemma distance_quarter_equator: "distance (0, 0) (0, 90) = 6371 * pi / 2"
proof -
  have "sin (pi / 4) * sin (pi / 4) = (1 / 2 :: real)"
    by (simp add: sin_45)
  moreover have "90 * pi / 180 / 2 = pi / 4" by simp
  ultimately have a: "sin (toRadians 90 / 2) * sin (toRadians 90 / 2) = 1 / 2"
    by (simp add: toRadians_def)
  have h: "atan2 (sqrt (1 / 2)) (sqrt (1 / 2)) = pi / 4"
    by (simp add: atan2_def arctan_one)
  show ?thesis
    by (simp add: distance_def Let_def toRadians_numerals(1) a h)
qed

lemma distance_commute: "distance A B = distance B A"
proof -
  have s: "sin (toRadians (x - y) / 2) * sin (toRadians (x - y) / 2)
         = sin (toRadians (y - x) / 2) * sin (toRadians (y - x) / 2)" for x y :: real
  proof -
    have "toRadians (x - y) / 2 = - (toRadians (y - x) / 2)"
      by (simp add: toRadians_diff field_simps)
    then show ?thesis by simp
  qed
  have s2: "c * sin (toRadians (x - y) / 2) * sin (toRadians (x - y) / 2)
          = c * sin (toRadians (y - x) / 2) * sin (toRadians (y - x) / 2)" for c x y :: real
    using s[of x y] by (simp add: mult.assoc)
  have "sin (toRadians (fst B - fst A) / 2) * sin (toRadians (fst B - fst A) / 2) +
        cos (toRadians (fst A)) * cos (toRadians (fst B)) *
          sin (toRadians (snd B - snd A) / 2) * sin (toRadians (snd B - snd A) / 2)
      = sin (toRadians (fst A - fst B) / 2) * sin (toRadians (fst A - fst B) / 2) +
        cos (toRadians (fst B)) * cos (toRadians (fst A)) *
          sin (toRadians (snd A - snd B) / 2) * sin (toRadians (snd A - snd B) / 2)"
    unfolding s[of "fst B" "fst A"] s2[of _ "snd B" "snd A"]
    by (simp only: mult.commute[of "cos (toRadians (fst A))"])
  then show ?thesis
    unfolding distance_def Let_def by (simp only:)
qed

lemma separated_append:
  assumes "separated cs" "\<forall>u \<in> set cs. minImageDistanceKm \<le> distance c u"
  shows "separated (cs @ [c])"
  unfolding separated_def
proof (intro allI impI)
  fix i j
  assume a: "i < j \<and> j < length (cs @ [c])"
  show "minImageDistanceKm \<le> distance ((cs @ [c]) ! j) ((cs @ [c]) ! i)"
  proof (cases "j < length cs")
    case True
    then show ?thesis
      using a assms(1) by (simp add: separated_def nth_append)
  next
    case False
    then have j: "j = length cs" using a by simp
    then have "i < length cs" using a by simp
    then have "cs ! i \<in> set cs" by simp
    then show ?thesis
      using assms(2) j \<open>i < length cs\<close> by (simp add: nth_append)
  qed
qed

lemma separated_symmetric:
  assumes "separated cs" "i < length cs" "j < length cs" "i \<noteq> j"
  shows "minImageDistanceKm \<le> distance (cs ! i) (cs ! j)"
proof (cases "i < j")
  case True
  then have "minImageDistanceKm \<le> distance (cs ! j) (cs ! i)"
    using assms by (simp add: separated_def)
  then show ?thesis by (simp add: distance_commute)
next
  case False
  then have "j < i" using assms(4) by simp
  then show ?thesis using assms by (simp add: separated_def)
qed

lemma processResult_accepts:
  assumes "processResult acc (Some imageData) = Inr acc'" "acc' \<noteq> acc"
  shows "imageId imageData \<notin> set (usedImageIds acc) \<and>
         (\<exists>imgLon imgLat. geometry imageData = Some (imgLon, imgLat) \<and>
            (\<forall>usedLocation \<in> set (usedImageLocations acc).
               minImageDistanceKm \<le> distance (imgLat, imgLon) usedLocation) \<and>
            fetchedImages acc' = fetchedImages acc @ [thumbUrl imageData] \<and>
            fetchedCoordinates acc' = fetchedCoordinates acc @ [(imgLat, imgLon)] \<and>
            usedImageIds acc' = usedImageIds acc @ [imageId imageData] \<and>
            usedImageLocations acc' = usedImageLocations acc @ [(imgLat, imgLon)])"
  using assms
  by (auto simp: processResult_def Let_def setAdd_def list_ex_iff not_less
      split: if_splits option.splits prod.splits)

lemma processResult_invariant:
  assumes "accumulatorInvariant acc" "processResult acc r = Inr acc'"
  shows "accumulatorInvariant acc'"
proof (cases "acc' = acc")
  case True
  then show ?thesis using assms(1) by simp
next
  case False
  then obtain imageData where r: "r = Some imageData"
    using assms(2) by (cases r) (auto simp: processResult_def)
  from processResult_accepts[OF assms(2)[unfolded r] False]
  obtain imgLon imgLat where h: "imageId imageData \<notin> set (usedImageIds acc)"
    "\<forall>usedLocation \<in> set (usedImageLocations acc).
       minImageDistanceKm \<le> distance (imgLat, imgLon) usedLocation"
    "fetchedImages acc' = fetchedImages acc @ [thumbUrl imageData]"
    "fetchedCoordinates acc' = fetchedCoordinates acc @ [(imgLat, imgLon)]"
    "usedImageIds acc' = usedImageIds acc @ [imageId imageData]"
    "usedImageLocations acc' = usedImageLocations acc @ [(imgLat, imgLon)]"
    by blast
  have "separated (fetchedCoordinates acc @ [(imgLat, imgLon)])"
    using assms(1) h(2) by (intro separated_append) (simp_all add: accumulatorInvariant_def)
  then show ?thesis
    using assms(1) h by (simp add: accumulatorInvariant_def)
qed

lemma processBatch_invariant:
  "accumulatorInvariant acc \<Longrightarrow> processBatch acc rs = Inr acc' \<Longrightarrow> accumulatorInvariant acc'"
proof (induction rs arbitrary: acc)
  case Nil
  then show ?case by simp
next
  case (Cons r rs)
  then show ?case
    by (auto split: sum.splits dest: processResult_invariant)
qed

lemma runBatches_invariant:
  "runInvariant st \<Longrightarrow> runBatches st batches = (err, st') \<Longrightarrow> runInvariant st'"
proof (induction batches arbitrary: st)
  case Nil
  then show ?case by simp
next
  case (Cons b batches)
  obtain cancelled batchResults where b: "b = (cancelled, batchResults)" by (cases b)
  show ?case
  proof (cases "cancelled")
    case True
    then show ?thesis using Cons.prems b by simp
  next
    case False
    show ?thesis
    proof (cases "processBatch (accumulators st) batchResults")
      case (Inl e)
      then show ?thesis using Cons.prems b False by simp
    next
      case (Inr acc')
      have "accumulatorInvariant acc'"
        using processBatch_invariant[OF _ Inr] Cons.prems(1) by (simp add: runInvariant_def)
      then have "runInvariant \<lparr>accumulators = acc', shownImages = fetchedImages acc',
                         shownCoordinates = fetchedCoordinates acc'\<rparr>"
        by (simp add: runInvariant_def)
      then show ?thesis
        using Cons.IH Cons.prems(2) b False Inr by simp
    qed
  qed
qed

lemma initialRun_invariant: "runInvariant initialRun"
  by (simp add: runInvariant_def initialRun_def accumulatorInvariant_def separated_def)

text \<open>
  Claim C3. Whatever the batches of lookup results and the cancellation flags, and
  whether the run completes, is cancelled or ends in an exception, the lists shown at the
  end hold one entry per accepted identifier, no identifier twice, and any two distinct
  coordinates in them are at least \<open>minImageDistanceKm\<close> apart (in either order). An image is
  accepted (the accumulators change) only if its identifier is new and its coordinate is
  at least that far from every location accepted before; its coordinate and identifier
  are then appended together.
\<close>

theorem dedup_invariant:
  assumes "runBatches initialRun batches = (err, st)"
  shows "length (usedImageIds (accumulators st)) = length (shownImages st) \<and>
         length (shownCoordinates st) = length (shownImages st) \<and>
         distinct (usedImageIds (accumulators st)) \<and>
         (\<forall>i j. i < length (shownCoordinates st) \<and> j < length (shownCoordinates st) \<and> i \<noteq> j \<longrightarrow>
            minImageDistanceKm \<le> distance (shownCoordinates st ! i) (shownCoordinates st ! j)) \<and>
         (\<forall>acc imageData acc'.
            processResult acc (Some imageData) = Inr acc' \<and> acc' \<noteq> acc \<longrightarrow>
              imageId imageData \<notin> set (usedImageIds acc) \<and>
              (\<exists>imgLon imgLat. geometry imageData = Some (imgLon, imgLat) \<and>
                 (\<forall>usedLocation \<in> set (usedImageLocations acc).
                    minImageDistanceKm \<le> distance (imgLat, imgLon) usedLocation) \<and>
                 fetchedCoordinates acc' = fetchedCoordinates acc @ [(imgLat, imgLon)] \<and>
                 usedImageIds acc' = usedImageIds acc @ [imageId imageData]))"
proof -
  have inv: "runInvariant st"
    by (rule runBatches_invariant[OF initialRun_invariant assms])
  then have a: "accumulatorInvariant (accumulators st)"
    and s: "shownImages st = fetchedImages (accumulators st)"
      "shownCoordinates st = fetchedCoordinates (accumulators st)"
    by (simp_all add: runInvariant_def)
  have 1: "length (usedImageIds (accumulators st)) = length (shownImages st)"
    using a s by (simp add: accumulatorInvariant_def)
  have 2: "length (shownCoordinates st) = length (shownImages st)"
    using a s by (simp add: accumulatorInvariant_def)
  have 3: "distinct (usedImageIds (accumulators st))"
    using a by (simp add: accumulatorInvariant_def)
  have sep: "separated (shownCoordinates st)"
    using a s by (simp add: accumulatorInvariant_def)
  have 4: "\<forall>i j. i < length (shownCoordinates st) \<and> j < length (shownCoordinates st) \<and> i \<noteq> j \<longrightarrow>
            minImageDistanceKm \<le> distance (shownCoordinates st ! i) (shownCoordinates st ! j)"
    using separated_symmetric[OF sep] by blast
  have 5: "\<forall>acc imageData acc'.
            processResult acc (Some imageData) = Inr acc' \<and> acc' \<noteq> acc \<longrightarrow>
              imageId imageData \<notin> set (usedImageIds acc) \<and>
              (\<exists>imgLon imgLat. geometry imageData = Some (imgLon, imgLat) \<and>
                 (\<forall>usedLocation \<in> set (usedImageLocations acc).
                    minImageDistanceKm \<le> distance (imgLat, imgLon) usedLocation) \<and>
                 fetchedCoordinates acc' = fetchedCoordinates acc @ [(imgLat, imgLon)] \<and>
                 usedImageIds acc' = usedImageIds acc @ [imageId imageData])"
  proof (intro allI impI)
    fix acc imageData acc'
    assume h: "processResult acc (Some imageData) = Inr acc' \<and> acc' \<noteq> acc"
    from processResult_accepts[of acc imageData acc'] h
    show "imageId imageData \<notin> set (usedImageIds acc) \<and>
              (\<exists>imgLon imgLat. geometry imageData = Some (imgLon, imgLat) \<and>
                 (\<forall>usedLocation \<in> set (usedImageLocations acc).
                    minImageDistanceKm \<le> distance (imgLat, imgLon) usedLocation) \<and>
                 fetchedCoordinates acc' = fetchedCoordinates acc @ [(imgLat, imgLon)] \<and>
                 usedImageIds acc' = usedImageIds acc @ [imageId imageData])"
      by blast
  qed
  show ?thesis by (intro conjI 1 2 3 4 5)
qed

lemma distance_same_point: "distance (0, 0) (0, 0) = 0"
  by (simp add: distance_def Let_def toRadians_def atan2_def)

lemma distance_quarter_equator_back: "distance (0, 90) (0, 0) = 6371 * pi / 2"
  using distance_commute[of "(0, 90)" "(0, 0)"] distance_quarter_equator by simp

lemma quarter_equator_far: "(distance (0, 90) (0, 0) < minImageDistanceKm) = False"
proof -
  have "minImageDistanceKm \<le> 1" by (simp add: minImageDistanceKm_def)
  moreover have "1 \<le> 6371 * pi / 2" using pi_ge_two by simp
  ultimately have "\<not> 6371 * pi / 2 < minImageDistanceKm" by linarith
  then show ?thesis unfolding distance_quarter_equator_back by simp
qed

lemma same_point_near: "(distance (0, 0) (0, 0) < minImageDistanceKm) = True"
  by (simp add: distance_same_point minImageDistanceKm_def)

lemma sampleBatches_run:
  "runBatches initialRun sampleBatches =
     (None, \<lparr>accumulators = \<lparr>fetchedImages = [Some ''p.jpg'', Some ''r.jpg''],
                               fetchedCoordinates = [(0, 0), (0, 90)],
                               usedImageIds = [''p'', ''r''],
                               usedImageLocations = [(0, 0), (0, 90)]\<rparr>,
             shownImages = [Some ''p.jpg'', Some ''r.jpg''],
             shownCoordinates = [(0, 0), (0, 90)]\<rparr>)"
  by (simp add: sampleBatches_def initialRun_def processResult_def imgP_def imgQ_def imgR_def
      setAdd_def Let_def quarter_equator_far same_point_near)

text \<open>
  Of the three batches the first accepts \<open>imgP\<close> once (the repetition and the image at the
  same place are dropped), the second accepts \<open>imgR\<close>, the third is not started.
\<close>

theorem dedup_invariant_witness:
  "\<exists>err st. runBatches initialRun sampleBatches = (err, st) \<and>
     usedImageIds (accumulators st) = [''p'', ''r''] \<and>
     shownCoordinates st = [(0, 0), (0, 90)] \<and>
     distinct (usedImageIds (accumulators st)) \<and>
     minImageDistanceKm \<le> distance (shownCoordinates st ! 0) (shownCoordinates st ! 1)"
proof -
  let ?st = "\<lparr>accumulators = \<lparr>fetchedImages = [Some ''p.jpg'', Some ''r.jpg''],
                               fetchedCoordinates = [(0, 0), (0, 90)],
                               usedImageIds = [''p'', ''r''],
                               usedImageLocations = [(0, 0), (0, 90)]\<rparr>,
             shownImages = [Some ''p.jpg'', Some ''r.jpg''],
             shownCoordinates = [(0, 0), (0, 90)]\<rparr>"
  note d = dedup_invariant[OF sampleBatches_run]
  have "distinct (usedImageIds (accumulators ?st))" using d by blast
  moreover have "minImageDistanceKm \<le> distance (shownCoordinates ?st ! 0) (shownCoordinates ?st ! 1)"
  proof -
    have "\<forall>i j. i < length (shownCoordinates ?st) \<and> j < length (shownCoordinates ?st) \<and> i \<noteq> j \<longrightarrow>
            minImageDistanceKm \<le> distance (shownCoordinates ?st ! i) (shownCoordinates ?st ! j)"
      using d by blast
    from this[rule_format, of 0 1] show ?thesis by simp
  qed
  ultimately show ?thesis
    using sampleBatches_run by (intro exI[of _ None] exI[of _ ?st]) simp
qed

text \<open>
  Claim C6. A rejected request, a response that is not \<^verbatim>\<open>ok\<close> and a body that is not JSON
  each throw inside the \<^verbatim>\<open>try\<close> block, and whatever is thrown there is caught: the lookup
  returns none. The merge skips such a result: the accumulators stay as they are, nothing
  is raised, and the batch and the run go on as if the result were not there.
\<close>

theorem lookup_failure_is_none:
  "(response = NetworkFailure \<or> response = HttpNotOk \<or> response = InvalidJson \<longrightarrow>
      (\<exists>e. lookupBody coord' heading response = Inl e) \<and>
      getMapillaryImage coord' heading response = None) \<and>
   (\<forall>e. lookupBody coord' heading response = Inl e \<longrightarrow>
      getMapillaryImage coord' heading response = None) \<and>
   processResult acc None = Inr acc \<and>
   processBatch acc (None # batchResults) = processBatch acc batchResults \<and>
   runBatches st ((False, None # batchResults) # batches)
     = runBatches st ((False, batchResults) # batches)"
proof -
  have 1: "response = NetworkFailure \<or> response = HttpNotOk \<or> response = InvalidJson \<longrightarrow>
      (\<exists>e. lookupBody coord' heading response = Inl e) \<and>
      getMapillaryImage coord' heading response = None"
    by (auto simp: lookupBody_def getMapillaryImage_def)
  have 2: "\<forall>e. lookupBody coord' heading response = Inl e \<longrightarrow>
      getMapillaryImage coord' heading response = None"
    by (simp add: getMapillaryImage_def)
  have 3: "processResult acc None = Inr acc" for acc
    by (simp add: processResult_def)
  have 4: "processBatch acc (None # batchResults) = processBatch acc batchResults" for acc
    by (simp add: 3)
  have 5: "runBatches st ((False, None # batchResults) # batches)
     = runBatches st ((False, batchResults) # batches)"
    by (simp add: 3)
  show ?thesis by (intro conjI 1 2 3 4 5)
qed

text \<open>A lookup that meets an HTTP error, merged before a successful one.\<close>

theorem lookup_failure_is_none_witness:
  "(\<exists>e. lookupBody (38.5, - 120.2) 90 HttpNotOk = Inl e) \<and>
   getMapillaryImage (38.5, - 120.2) 90 HttpNotOk = None \<and>
   runBatches initialRun [(False, [getMapillaryImage (38.5, - 120.2) 90 HttpNotOk, Some imgP])]
     = runBatches initialRun [(False, [Some imgP])]"
proof -
  note t = lookup_failure_is_none[of HttpNotOk "(38.5, - 120.2)" 90 _ "[Some imgP]" initialRun "[]"]
  have a: "(\<exists>e. lookupBody (38.5, - 120.2) 90 HttpNotOk = Inl e) \<and>
      getMapillaryImage (38.5, - 120.2) 90 HttpNotOk = None"
    using t by blast
  moreover have "runBatches initialRun [(False, [None, Some imgP])]
     = runBatches initialRun [(False, [Some imgP])]"
    using t by blast
  ultimately show ?thesis by simp
qed

subsection \<open>Orchestrator: coordinate inputs\<close>

lemma parseFloat_sample: "parseFloat ''38.5'' = Num 38.5"
  by (simp add: parseFloat_def readSign_def isWhiteSpace_def isDigit_def digitsToNat_def Let_def)

text \<open>
  Claim C7 at the input \<^verbatim>\<open>120,45\<close>, a longitude followed by a latitude: \<^verbatim>\<open>isCoordinates\<close>
  accepts it (its second test, for the order lon,lat, holds), and \<^verbatim>\<open>parseCoordinateInput\<close>
  reads 120 as a latitude and throws.
\<close>

theorem lonlat_input_rejected:
  "isCoordinates ''120,45'' \<and>
   parseCoordinateInput ''120,45'' = Inl (InvalidCoordinates (Num 120) (Num 45))"
  by (simp add: isCoordinates_def parseCoordinateInput_def trim_def includesChar_def
      parseFloat_def readSign_def isWhiteSpace_def isDigit_def digitsToNat_def Let_def
      isNaN_def atLeast'_def atMost'_def)

text \<open>
  In general: an input that \<^verbatim>\<open>isCoordinates\<close> accepts is parsed without error exactly
  when its first number is a valid latitude and its second a valid longitude.
\<close>

lemma split_not_Nil: "split c s \<noteq> []"
  by (induction s) auto

lemma split_no_separator: "c \<notin> set s \<Longrightarrow> split c s = [s]"
  by (induction s) auto

lemma split_two_includes: "length (split c s) = 2 \<Longrightarrow> includesChar c s"
  by (cases "c \<in> set s") (simp_all add: includesChar_def split_no_separator)

lemma parseCoordinateInput_classified:
  assumes "isCoordinates input"
  shows "parseCoordinateInput input =
     (let first = parseFloat (trim (split CHR '','' (trim input) ! 0));
          second = parseFloat (trim (split CHR '','' (trim input) ! 1))
      in if atLeast' first (- 90) \<and> atMost' first 90 \<and>
            atLeast' second (- 180) \<and> atMost' second 180
         then Inr (LonLat second first)
         else Inl (InvalidCoordinates first second))"
proof -
  have len: "length (split CHR '','' (trim input)) = 2"
    using assms by (auto simp: isCoordinates_def Let_def split: if_splits)
  have nan: "\<not> isNaN (parseFloat (trim (split CHR '','' (trim input) ! 0)))"
    "\<not> isNaN (parseFloat (trim (split CHR '','' (trim input) ! 1)))"
    using assms len by (auto simp: isCoordinates_def Let_def split: if_splits)
  show ?thesis
    using len nan split_two_includes[OF len]
    by (simp add: parseCoordinateInput_def Let_def)
qed

end
